theory Spec2Isabelle
  imports Main "HOL-Library.Sublist"
begin

section \<open>JavaScript values used by the pages\<close>

text \<open>
  A JavaScript string is a sequence of UTF-16 code units; text typed by the user is kept
  as such a sequence, and string literals of the source are converted with \<open>lit\<close>.
\<close>

type_synonym jsstring = "nat list"

definition lit :: "string \<Rightarrow> jsstring" where
  "lit s = map of_char s"

text \<open>
  The code units that \<open>String.prototype.trim\<close> strips and that \<open>\s\<close> matches:
  white space and line terminators.
\<close>

definition is_js_whitespace :: "nat \<Rightarrow> bool" where
  "is_js_whitespace c =
     (c = 9 \<or> c = 10 \<or> c = 11 \<or> c = 12 \<or> c = 13 \<or> c = 32 \<or> c = 160 \<or> c = 5760
      \<or> (8192 \<le> c \<and> c \<le> 8202) \<or> c = 8232 \<or> c = 8233 \<or> c = 8239 \<or> c = 8287
      \<or> c = 12288 \<or> c = 65279)"

definition js_trim :: "jsstring \<Rightarrow> jsstring" where
  "js_trim s = rev (dropWhile is_js_whitespace (rev (dropWhile is_js_whitespace s)))"

text \<open>\<open>\w\<close>: ASCII letters, digits and the underscore.\<close>

definition is_word_char :: "nat \<Rightarrow> bool" where
  "is_word_char c = ((48 \<le> c \<and> c \<le> 57) \<or> (65 \<le> c \<and> c \<le> 90) \<or> (97 \<le> c \<and> c \<le> 122) \<or> c = 95)"

text \<open>\<open>Number.prototype.toString\<close> on a non-negative integer: its decimal digits.\<close>

fun show_nat :: "nat \<Rightarrow> string" where
  "show_nat n =
     (if n < 10 then [char_of (48 + n)]
      else show_nat (n div 10) @ [char_of (48 + n mod 10)])"

declare show_nat.simps [simp del]

text \<open>
  \<open>arr[i]\<close>: the element, or \<open>undefined\<close> (here \<open>None\<close>) when \<open>i\<close> is not an index of
  the array.
\<close>

definition js_index :: "'a list \<Rightarrow> nat \<Rightarrow> 'a option" where
  "js_index xs i = (if i < length xs then Some (xs ! i) else None)"

text \<open>
  \<open>arr.splice(start, deleteCount)\<close> and \<open>arr.splice(start, 0, item)\<close> for a
  non-negative \<open>start\<close>: a start beyond the end is clamped to the length, and no more
  elements are deleted than there are.
\<close>

definition splice_remove :: "nat \<Rightarrow> nat \<Rightarrow> 'a list \<Rightarrow> 'a list" where
  "splice_remove start deleteCount xs = take start xs @ drop (start + deleteCount) xs"

definition splice_insert :: "nat \<Rightarrow> 'a \<Rightarrow> 'a list \<Rightarrow> 'a list" where
  "splice_insert start item xs = take start xs @ item # drop start xs"

text \<open>
  How an awaited call of the data-access or storage layer ends: it resolves with a
  value, it resolves with its \<open>error\<close> field set, or the promise is rejected (the
  \<open>await\<close> throws; the payload is the message when the thrown value is an \<open>Error\<close>).
\<close>

datatype 'a api_result = Ok 'a | Error | Throw "jsstring option"

definition is_throw :: "'a api_result \<Rightarrow> bool" where
  "is_throw r = (case r of Throw _ \<Rightarrow> True | _ \<Rightarrow> False)"

definition is_ok :: "'a api_result \<Rightarrow> bool" where
  "is_ok r = (case r of Ok _ \<Rightarrow> True | _ \<Rightarrow> False)"

section \<open>The relational store (extended-schema.md, todo.md)\<close>

datatype db_error =
    RaisedException string
  | UniqueViolation string
  | ForeignKeyViolation string
  | CheckViolation string

record profile =
  pid :: string
  max_bookmark_folders :: "int option"

text \<open>
  A row of \<open>bookmark_folders\<close>, which is also the folder object the page holds. The
  timestamps, which nothing below reads, are left out.
\<close>

record folder =
  fid :: string
  f_user_id :: string
  fname :: jsstring
  is_default :: bool
  display_order :: int
  color :: jsstring
  icon :: jsstring

record bookmark =
  bid :: string
  b_folder_id :: string

text \<open>\<open>SELECT COUNT(*) FROM bookmark_folders WHERE user_id = NEW.user_id\<close>\<close>

definition folder_count :: "folder list \<Rightarrow> string \<Rightarrow> int" where
  "folder_count bf uid = int (length (filter (\<lambda>r. f_user_id r = uid) bf))"

text \<open>
  \<open>SELECT max_bookmark_folders FROM profiles WHERE id = NEW.user_id\<close>: \<open>None\<close> is SQL
  \<open>NULL\<close>, the value of the scalar subquery when there is no such profile or the column
  is null.
\<close>

definition max_folders_of :: "profile list \<Rightarrow> string \<Rightarrow> int option" where
  "max_folders_of ps uid =
     (case find (\<lambda>p. pid p = uid) ps of None \<Rightarrow> None | Some p \<Rightarrow> max_bookmark_folders p)"

text \<open>
  The trigger function \<open>check_folder_limit\<close>, run \<open>BEFORE INSERT\<close> for each row: the
  count is taken over the rows already stored. A comparison with \<open>NULL\<close> is not true,
  so the exception is not raised then.
\<close>

definition check_folder_limit :: "profile list \<Rightarrow> folder list \<Rightarrow> folder \<Rightarrow> db_error + folder" where
  "check_folder_limit ps bf new =
     (case max_folders_of ps (f_user_id new) of
        None \<Rightarrow> Inr new
      | Some m \<Rightarrow>
          if folder_count bf (f_user_id new) > m
          then Inl (RaisedException ''Maximum folder limit reached'')
          else Inr new)"

text \<open>
  \<open>INSERT INTO bookmark_folders\<close>: the trigger \<open>enforce_folder_limit\<close> first, then the
  constraints of the table (primary key, foreign key to \<open>profiles\<close>,
  \<open>UNIQUE (user_id, name)\<close>). An error leaves the table as it was.
\<close>

definition insert_bookmark_folder :: "profile list \<Rightarrow> folder list \<Rightarrow> folder \<Rightarrow> db_error + folder list" where
  "insert_bookmark_folder ps bf new =
     (case check_folder_limit ps bf new of
        Inl e \<Rightarrow> Inl e
      | Inr row \<Rightarrow>
          if fid row \<in> set (map fid bf) then Inl (UniqueViolation ''bookmark_folders_pkey'')
          else if (f_user_id row, fname row) \<in> set (map (\<lambda>r. (f_user_id r, fname r)) bf)
            then Inl (UniqueViolation ''bookmark_folders_user_id_name_key'')
          else if f_user_id row \<notin> set (map pid ps)
            then Inl (ForeignKeyViolation ''bookmark_folders_user_id_fkey'')
          else Inr (bf @ [row]))"

text \<open>The table after an insert attempt.\<close>

definition table_after :: "'a list \<Rightarrow> db_error + 'a list \<Rightarrow> 'a list" where
  "table_after t r = (case r of Inl _ \<Rightarrow> t | Inr t' \<Rightarrow> t')"

record bookmark_stats =
  total_folders :: int
  total_bookmarks :: int
  folders_remaining :: int

text \<open>
  The row that \<open>get_user_bookmark_stats\<close> returns: \<open>folders_remaining\<close> is \<open>NULL\<close>
  (\<open>None\<close>) when \<open>max_bookmark_folders\<close> is.
\<close>

record stats_row =
  sr_total_folders :: int
  sr_total_bookmarks :: int
  sr_folders_remaining :: "int option"

text \<open>
  \<open>get_user_bookmark_stats\<close>: one row for an existing profile, none otherwise; the
  folders and bookmarks of the user are counted by distinct id.
\<close>

definition get_user_bookmark_stats ::
  "profile list \<Rightarrow> folder list \<Rightarrow> bookmark list \<Rightarrow> string \<Rightarrow> stats_row option" where
  "get_user_bookmark_stats ps bf bms uid =
     (case find (\<lambda>p. pid p = uid) ps of
        None \<Rightarrow> None
      | Some p \<Rightarrow>
          (let mine = remdups (map fid (filter (\<lambda>r. f_user_id r = uid) bf));
               marks = remdups (map bid (filter (\<lambda>b. b_folder_id b \<in> set mine) bms))
           in Some \<lparr> sr_total_folders = int (length mine),
                     sr_total_bookmarks = int (length marks),
                     sr_folders_remaining =
                       map_option (\<lambda>m. m - int (length mine)) (max_bookmark_folders p) \<rparr>))"

text \<open>
  The columns of \<open>user_comics\<close> that an insert supplies, and a stored row, which has
  its \<open>id\<close> as well (the timestamps and \<open>view_count\<close> are left out).
\<close>

record comic_fields =
  uc_user_id :: string
  uc_title :: jsstring
  slug :: jsstring
  uc_description :: "jsstring option"
  uc_artist :: jsstring
  cover_image_url :: string
  uc_language :: string
  page_count :: int
  status :: string

record user_comic = comic_fields +
  uc_id :: string

text \<open>
  \<open>INSERT INTO user_comics\<close> under the constraints of the table: the two \<open>CHECK\<close>s,
  the primary key, \<open>slug TEXT UNIQUE\<close> and the foreign key to \<open>profiles\<close>.
\<close>

definition insert_user_comic :: "profile list \<Rightarrow> user_comic list \<Rightarrow> user_comic \<Rightarrow> db_error + user_comic list" where
  "insert_user_comic ps t new =
     (if uc_language new \<notin> set [''English'', ''Chinese'', ''Japanese'', ''Other'']
        then Inl (CheckViolation ''user_comics_language_check'')
      else if status new \<notin> set [''draft'', ''published'', ''archived'']
        then Inl (CheckViolation ''user_comics_status_check'')
      else if uc_id new \<in> set (map uc_id t) then Inl (UniqueViolation ''user_comics_pkey'')
      else if slug new \<in> set (map slug t) then Inl (UniqueViolation ''user_comics_slug_key'')
      else if uc_user_id new \<notin> set (map pid ps)
        then Inl (ForeignKeyViolation ''user_comics_user_id_fkey'')
      else Inr (t @ [new]))"

text \<open>A sequence of insert attempts, each accepted or rejected.\<close>

fun insert_user_comics :: "profile list \<Rightarrow> user_comic list \<Rightarrow> user_comic list \<Rightarrow> user_comic list" where
  "insert_user_comics ps t [] = t"
| "insert_user_comics ps t (c # cs) =
     insert_user_comics ps (table_after t (insert_user_comic ps t c)) cs"

text \<open>A row of \<open>comic_pages\<close>, with \<open>UNIQUE (comic_id, page_number)\<close>.\<close>

record comic_page =
  pg_id :: string
  pg_comic_id :: string
  page_number :: int
  image_url :: string

text \<open>
  \<open>UPDATE comic_pages SET page_number = new_order WHERE id = page_id AND comic_id =
  comic_uuid\<close>; the unique constraint is checked when the statement ends.
\<close>

definition update_page_number :: "string \<Rightarrow> string \<Rightarrow> int \<Rightarrow> comic_page list \<Rightarrow> db_error + comic_page list" where
  "update_page_number comic_uuid page_id new_order rows =
     (let rows' = map (\<lambda>r. if pg_id r = page_id \<and> pg_comic_id r = comic_uuid
                             then r\<lparr>page_number := new_order\<rparr> else r) rows
      in if distinct (map (\<lambda>r. (pg_comic_id r, page_number r)) rows') then Inr rows'
         else Inl (UniqueViolation ''comic_pages_comic_id_page_number_key''))"

text \<open>
  The loop of \<open>reorder_comic_pages\<close> from index \<open>i\<close> on. It returns the \<open>UPDATE\<close>
  statements it has run, as pairs of page id and new page number, and the table or the
  error that ended it (an error aborts the function; the caller's transaction then keeps
  none of its writes). \<open>cast\<close> is the conversion \<open>::UUID\<close> of an element of the JSON
  array, \<open>None\<close> when the text is not a UUID.
\<close>

fun reorder_loop ::
  "(string \<Rightarrow> string option) \<Rightarrow> string \<Rightarrow> string list \<Rightarrow> nat \<Rightarrow> comic_page list
     \<Rightarrow> (string \<times> int) list \<times> (db_error + comic_page list)" where
  "reorder_loop cast comic_uuid [] i rows = ([], Inr rows)"
| "reorder_loop cast comic_uuid (el # els) i rows =
     (case cast el of
        None \<Rightarrow> ([], Inl (RaisedException ''invalid input syntax for type uuid''))
      | Some page_id \<Rightarrow>
          (let new_order = int i + 1 in
           case update_page_number comic_uuid page_id new_order rows of
             Inl e \<Rightarrow> ([(page_id, new_order)], Inl e)
           | Inr rows' \<Rightarrow>
               (case reorder_loop cast comic_uuid els (Suc i) rows' of
                  (ws, r) \<Rightarrow> ((page_id, new_order) # ws, r))))"

definition reorder_comic_pages ::
  "(string \<Rightarrow> string option) \<Rightarrow> string \<Rightarrow> string list \<Rightarrow> comic_page list
     \<Rightarrow> (string \<times> int) list \<times> (db_error + comic_page list)" where
  "reorder_comic_pages cast comic_uuid page_order rows = reorder_loop cast comic_uuid page_order 0 rows"

section \<open>The bookmarks page (BookmarksPage)\<close>

text \<open>
  What the page sends out: calls of the data-access layer, the reloads it starts and the
  route it pushes (given by the \<open>folderId\<close> of its query). \<open>DeleteBookmarkFolder\<close> and
  \<open>UpdateBookmarkFolder\<close> are the calls of \<open>deleteBookmarkFolder\<close> and
  \<open>updateBookmarkFolder\<close>, which the page imports.
\<close>

datatype effect =
    CreateBookmarkFolder string jsstring bool int jsstring jsstring
  | UpdateBookmarkFolder string int
  | DeleteBookmarkFolder string
  | FetchBookmarkData
  | FetchBookmarksForFolder string
  | RouterPush string

text \<open>
  The state of the component and its two refs. The fields that the handlers below
  neither read nor write (the comics of the active folder, the loading flags, the
  modals) are left out.
\<close>

record bookmarks_page =
  user :: "string option"
  folders :: "folder list"
  activeFolder :: string
  bookmarkStats :: bookmark_stats
  error :: "jsstring option"
  success :: "jsstring option"
  dragItem :: "nat option"
  dragOverItem :: "nat option"

record folder_data =
  fd_name :: jsstring
  fd_color :: jsstring
  fd_icon :: jsstring

text \<open>
  \<open>handleCreateFolder\<close>. \<open>res\<close> is how \<open>createBookmarkFolder\<close> ends: \<open>Ok (Some f)\<close>
  with the stored row, \<open>Ok None\<close> with neither row nor error.
\<close>

definition handleCreateFolder ::
  "folder option api_result \<Rightarrow> folder_data \<Rightarrow> bookmarks_page \<Rightarrow> bookmarks_page \<times> effect list" where
  "handleCreateFolder res folderData s =
     (case user s of
        None \<Rightarrow> (s, [])
      | Some uid \<Rightarrow>
          if folders_remaining (bookmarkStats s) \<le> 0
          then (s\<lparr>error := Some (lit ''You have reached the maximum number of folders (100).'')\<rparr>, [])
          else
            (let call = CreateBookmarkFolder uid (fd_name folderData) False
                          (int (length (folders s))) (fd_color folderData) (fd_icon folderData)
             in case res of
                  Ok (Some f) \<Rightarrow>
                    (s\<lparr>folders := folders s @ [f],
                       bookmarkStats := (bookmarkStats s)
                         \<lparr>total_folders := total_folders (bookmarkStats s) + 1,
                          folders_remaining := folders_remaining (bookmarkStats s) - 1\<rparr>,
                       success := Some (lit ''Folder '' @ [34] @ fd_name folderData
                                        @ [34] @ lit '' created successfully.''),
                       activeFolder := fid f\<rparr>,
                     [call, FetchBookmarksForFolder (fid f), RouterPush (fid f)])
                | Ok None \<Rightarrow> (s, [call])
                | _ \<Rightarrow> (s\<lparr>error := Some (lit ''Failed to create folder. Please try again.'')\<rparr>,
                        [call])))"

text \<open>
  \<open>handleDeleteFolder\<close>. \<open>res\<close> is how \<open>deleteBookmarkFolder\<close> ends. The local
  \<open>remainingFolders\<close> is the list without the folder.
\<close>

definition handleDeleteFolder ::
  "unit api_result \<Rightarrow> string \<Rightarrow> bookmarks_page \<Rightarrow> bookmarks_page \<times> effect list" where
  "handleDeleteFolder res folderId s =
     (case user s of
        None \<Rightarrow> (s, [])
      | Some uid \<Rightarrow>
          if (case find (\<lambda>f. fid f = folderId) (folders s) of
                None \<Rightarrow> False | Some f \<Rightarrow> is_default f)
          then (s\<lparr>error := Some (lit ''Cannot delete default folders.'')\<rparr>, [])
          else
            (case res of
               Ok _ \<Rightarrow>
                 (let remainingFolders = filter (\<lambda>f. fid f \<noteq> folderId) (folders s);
                      s1 = s\<lparr>folders := remainingFolders,
                             bookmarkStats := (bookmarkStats s)
                               \<lparr>total_folders := total_folders (bookmarkStats s) - 1,
                                folders_remaining := folders_remaining (bookmarkStats s) + 1\<rparr>,
                             success := Some (lit ''Folder deleted successfully.'')\<rparr>
                  in if activeFolder s = folderId \<and> folders s \<noteq> [] \<and> remainingFolders \<noteq> []
                     then (s1\<lparr>activeFolder := fid (hd remainingFolders)\<rparr>,
                           [DeleteBookmarkFolder folderId,
                            FetchBookmarksForFolder (fid (hd remainingFolders)),
                            RouterPush (fid (hd remainingFolders))])
                     else (s1, [DeleteBookmarkFolder folderId]))
             | _ \<Rightarrow> (s\<lparr>error := Some (lit ''Failed to delete folder. Please try again.'')\<rparr>,
                     [DeleteBookmarkFolder folderId])))"

definition handleDragStart :: "nat \<Rightarrow> bookmarks_page \<Rightarrow> bookmarks_page" where
  "handleDragStart index s = s\<lparr>dragItem := Some index\<rparr>"

definition handleDragEnter :: "nat \<Rightarrow> bookmarks_page \<Rightarrow> bookmarks_page" where
  "handleDragEnter index s = s\<lparr>dragOverItem := Some index\<rparr>"

text \<open>
  The list \<open>updatedFolders\<close> of \<open>handleDragEnd\<close>: the copy of the folders after the two
  splices, every entry given its index as \<open>display_order\<close>. \<open>blank\<close> stands for the
  object that spreading \<open>undefined\<close> yields, when the dragged index is not an index of
  the list.
\<close>

definition updatedFolders :: "folder \<Rightarrow> nat \<Rightarrow> nat \<Rightarrow> folder list \<Rightarrow> folder list" where
  "updatedFolders blank i j fs =
     (let draggedItem = (case js_index fs i of None \<Rightarrow> blank | Some f \<Rightarrow> f);
          foldersCopy = splice_insert j draggedItem (splice_remove i 1 fs)
      in map (\<lambda>(index, f). f\<lparr>display_order := int index\<rparr>) (enumerate 0 foldersCopy))"

text \<open>
  The loop that persists the order, from loop index \<open>k\<close> on. \<open>res k\<close> is how the call of
  \<open>updateBookmarkFolder\<close> at loop index \<open>k\<close> ends and \<open>upd\<close> is the write it makes to the
  store when it succeeds; a call that does not succeed writes nothing. The loop looks at
  no result: only a rejected promise ends it. It returns the store, the calls made and
  whether an exception reached the \<open>catch\<close>.
\<close>

fun persist_order ::
  "(string \<Rightarrow> int \<Rightarrow> 'db \<Rightarrow> 'db) \<Rightarrow> (nat \<Rightarrow> unit api_result) \<Rightarrow> nat \<Rightarrow> folder list \<Rightarrow> 'db
     \<Rightarrow> 'db \<times> effect list \<times> bool" where
  "persist_order upd res k [] db = (db, [], False)"
| "persist_order upd res k (f # fs) db =
     (case res k of
        Throw _ \<Rightarrow> (db, [UpdateBookmarkFolder (fid f) (display_order f)], True)
      | Error \<Rightarrow>
          (case persist_order upd res (Suc k) fs db of
             (db', es, thrown) \<Rightarrow> (db', UpdateBookmarkFolder (fid f) (display_order f) # es, thrown))
      | Ok _ \<Rightarrow>
          (case persist_order upd res (Suc k) fs (upd (fid f) (display_order f) db) of
             (db', es, thrown) \<Rightarrow> (db', UpdateBookmarkFolder (fid f) (display_order f) # es, thrown)))"

text \<open>
  \<open>handleDragEnd\<close> of the bookmarks page, taken as one step: the new state, the store
  and the calls made.
\<close>

definition handleDragEnd ::
  "folder \<Rightarrow> (string \<Rightarrow> int \<Rightarrow> 'db \<Rightarrow> 'db) \<Rightarrow> (nat \<Rightarrow> unit api_result) \<Rightarrow> bookmarks_page \<Rightarrow> 'db
     \<Rightarrow> bookmarks_page \<times> 'db \<times> effect list" where
  "handleDragEnd blank upd res s db =
     (case (dragItem s, dragOverItem s) of
        (Some i, Some j) \<Rightarrow>
          (let s1 = s\<lparr>folders := updatedFolders blank i j (folders s),
                      dragItem := None, dragOverItem := None\<rparr>
           in case persist_order upd res 0 (folders s1) db of
                (db', es, thrown) \<Rightarrow>
                  if thrown
                  then (s1\<lparr>error := Some (lit ''Failed to update folder order. Please try again.'')\<rparr>,
                        db', es @ [FetchBookmarkData])
                  else (s1, db', es))
      | _ \<Rightarrow> (s, db, []))"

section \<open>The upload wizard (ComicUploadPage)\<close>

text \<open>
  A \<open>File\<close>: its name, MIME type, size in bytes, and the data URL that a \<open>FileReader\<close>
  produces for it.
\<close>

record js_file =
  file_name :: jsstring
  file_type :: string
  file_size :: nat
  file_data :: string

text \<open>
  The state of the component. The arrays are JavaScript arrays: an entry can be
  \<open>undefined\<close> (\<open>None\<close>). Two fields record work in flight: \<open>coverReads\<close>, the cover
  files whose \<open>FileReader\<close> has not finished, and \<open>previewReads\<close>, one entry per
  \<open>Promise.all\<close> of \<open>handlePagesUpload\<close> not yet settled, holding the value of
  \<open>pagePreviewUrls\<close> that its continuation closed over and the files being read.
\<close>

record wizard =
  w_user :: "string option"
  comicId :: string
  currentStep :: int
  isSubmitting :: bool
  w_error :: "jsstring option"
  w_success :: "jsstring option"
  coverImage :: "js_file option"
  coverPreview :: "string option"
  comicPages :: "js_file option list"
  pagePreviewUrls :: "string option list"
  title :: jsstring
  artist :: jsstring
  description :: jsstring
  language :: string
  selectedTags :: "string list"
  w_dragItem :: "nat option"
  w_dragOverItem :: "nat option"
  coverReads :: "js_file list"
  previewReads :: "(string option list \<times> js_file list) list"

definition initial_wizard :: "string option \<Rightarrow> string \<Rightarrow> wizard" where
  "initial_wizard u cid =
     \<lparr> w_user = u, comicId = cid, currentStep = 1, isSubmitting = False, w_error = None,
       w_success = None, coverImage = None, coverPreview = None, comicPages = [],
       pagePreviewUrls = [], title = [], artist = [], description = [],
       language = ''English'', selectedTags = [], w_dragItem = None, w_dragOverItem = None,
       coverReads = [], previewReads = [] \<rparr>"

text \<open>\<open>handleCoverUpload\<close>; the argument is \<open>e.target.files?.[0]\<close>.\<close>

definition handleCoverUpload :: "js_file option \<Rightarrow> wizard \<Rightarrow> wizard" where
  "handleCoverUpload fo s =
     (case fo of
        None \<Rightarrow> s
      | Some f \<Rightarrow>
          if \<not> prefix ''image/'' (file_type f)
          then s\<lparr>w_error := Some (lit ''Please upload an image file for the cover'')\<rparr>
          else if file_size f > 2 * 1024 * 1024
          then s\<lparr>w_error := Some (lit ''Cover image must be less than 2MB'')\<rparr>
          else s\<lparr>coverImage := Some f, coverReads := coverReads s @ [f], w_error := None\<rparr>)"

text \<open>The button \<open>Remove cover image\<close>.\<close>

definition removeCoverImage :: "wizard \<Rightarrow> wizard" where
  "removeCoverImage s = s\<lparr>coverImage := None, coverPreview := None\<rparr>"

text \<open>The \<open>onloadend\<close> of the \<open>k\<close>-th cover read in flight.\<close>

definition coverLoaded :: "nat \<Rightarrow> wizard \<Rightarrow> wizard" where
  "coverLoaded k s =
     (case js_index (coverReads s) k of
        None \<Rightarrow> s
      | Some f \<Rightarrow> s\<lparr>coverPreview := Some (file_data f),
                     coverReads := splice_remove k 1 (coverReads s)\<rparr>)"

text \<open>
  \<open>handlePagesUpload\<close>; the argument is \<open>e.target.files\<close>. The new files are appended
  to \<open>comicPages\<close> at once. Their previews are not: the handler only starts the reads,
  and the continuation of \<open>Promise.all\<close> will later set \<open>pagePreviewUrls\<close> from the value
  the handler saw.
\<close>

definition handlePagesUpload :: "js_file list option \<Rightarrow> wizard \<Rightarrow> wizard" where
  "handlePagesUpload fso s =
     (case fso of
        None \<Rightarrow> s
      | Some files \<Rightarrow>
          if \<not> length files > 0 then s
          else if length (comicPages s) + length files > 100
          then s\<lparr>w_error := Some (lit ''You can only upload up to 100 pages. You're trying to add ''
                    @ lit (show_nat (length files)) @ lit '' more pages to your existing ''
                    @ lit (show_nat (length (comicPages s))) @ lit '' pages.'')\<rparr>
          else if length (filter (\<lambda>f. \<not> prefix ''image/'' (file_type f)) files) > 0
          then s\<lparr>w_error := Some (lit ''All files must be images'')\<rparr>
          else if length (filter (\<lambda>f. file_size f > 5 * 1024 * 1024) files) > 0
          then s\<lparr>w_error := Some (lit ''All images must be less than 5MB'')\<rparr>
          else s\<lparr>comicPages := comicPages s @ map Some files,
                 previewReads := previewReads s @ [(pagePreviewUrls s, files)],
                 w_error := None\<rparr>)"

text \<open>
  The continuation \<open>previews => setPagePreviewUrls([...pagePreviewUrls, ...previews])\<close>
  of the \<open>k\<close>-th upload in flight.
\<close>

definition previewsLoaded :: "nat \<Rightarrow> wizard \<Rightarrow> wizard" where
  "previewsLoaded k s =
     (case js_index (previewReads s) k of
        None \<Rightarrow> s
      | Some (seen, files) \<Rightarrow>
          s\<lparr>pagePreviewUrls := seen @ map (\<lambda>f. Some (file_data f)) files,
            previewReads := splice_remove k 1 (previewReads s)\<rparr>)"

definition pageDragStart :: "nat \<Rightarrow> wizard \<Rightarrow> wizard" where
  "pageDragStart index s = s\<lparr>w_dragItem := Some index\<rparr>"

definition pageDragEnter :: "nat \<Rightarrow> wizard \<Rightarrow> wizard" where
  "pageDragEnter index s = s\<lparr>w_dragOverItem := Some index\<rparr>"

text \<open>
  The move that \<open>handleDragEnd\<close> makes on each of its two arrays: read the entry at
  \<open>i\<close> (\<open>undefined\<close> outside the array), remove one entry at \<open>i\<close>, insert what was
  read at \<open>j\<close>.
\<close>

definition move_entry :: "nat \<Rightarrow> nat \<Rightarrow> 'a option list \<Rightarrow> 'a option list" where
  "move_entry i j xs =
     (let dragged = (case js_index xs i of None \<Rightarrow> None | Some x \<Rightarrow> x)
      in splice_insert j dragged (splice_remove i 1 xs))"

text \<open>\<open>handleDragEnd\<close> of the wizard.\<close>

definition pageDragEnd :: "wizard \<Rightarrow> wizard" where
  "pageDragEnd s =
     (case (w_dragItem s, w_dragOverItem s) of
        (Some i, Some j) \<Rightarrow>
          s\<lparr>comicPages := move_entry i j (comicPages s),
            pagePreviewUrls := move_entry i j (pagePreviewUrls s),
            w_dragItem := None, w_dragOverItem := None\<rparr>
      | _ \<Rightarrow> s)"

definition handleRemovePage :: "nat \<Rightarrow> wizard \<Rightarrow> wizard" where
  "handleRemovePage index s =
     s\<lparr>comicPages := splice_remove index 1 (comicPages s),
       pagePreviewUrls := splice_remove index 1 (pagePreviewUrls s)\<rparr>"

definition handleTagToggle :: "string \<Rightarrow> wizard \<Rightarrow> wizard" where
  "handleTagToggle tagId s =
     (if tagId \<in> set (selectedTags s)
      then s\<lparr>selectedTags := filter (\<lambda>t. t \<noteq> tagId) (selectedTags s)\<rparr>
      else s\<lparr>selectedTags := selectedTags s @ [tagId]\<rparr>)"

definition goToNextStep :: "wizard \<Rightarrow> wizard" where
  "goToNextStep s =
     (if currentStep s = 1 \<and> coverImage s = None
      then s\<lparr>w_error := Some (lit ''Please upload a cover image'')\<rparr>
      else if currentStep s = 2 \<and> length (comicPages s) = 0
      then s\<lparr>w_error := Some (lit ''Please upload at least one comic page'')\<rparr>
      else if currentStep s = 3 \<and> js_trim (title s) = []
      then s\<lparr>w_error := Some (lit ''Please enter a title'')\<rparr>
      else if currentStep s = 3 \<and> js_trim (artist s) = []
      then s\<lparr>w_error := Some (lit ''Please enter an artist name'')\<rparr>
      else s\<lparr>currentStep := currentStep s + 1, w_error := None\<rparr>)"

definition goToPreviousStep :: "wizard \<Rightarrow> wizard" where
  "goToPreviousStep s = s\<lparr>currentStep := currentStep s - 1, w_error := None\<rparr>"

text \<open>
  The calls that \<open>handleSubmit\<close> makes. \<open>DeleteUserComic\<close> is the call of
  \<open>deleteUserComic\<close>, the operation of the storage layer that removes a comic's files.
  \<open>RedirectLater\<close> is the \<open>router.push\<close> scheduled with \<open>setTimeout\<close>.
\<close>

datatype wizard_effect =
    UploadComicCover string string js_file
  | CreateUserComic comic_fields
  | UploadComicPage string string nat js_file
  | AddComicPage string nat string
  | DeleteUserComic string string
  | RedirectLater string

text \<open>
  What a submission meets outside the component: \<open>String.prototype.toLowerCase\<close>, the
  value of \<open>Date.now()\<close>, how each awaited call ends (the page calls by loop index), and
  the message of the \<open>TypeError\<close> that \<open>uploadComicPage\<close> throws when it reads
  \<open>file.name\<close> of \<open>undefined\<close>.
\<close>

record submit_env =
  toLowerCase :: "jsstring \<Rightarrow> jsstring"
  now :: nat
  cover_result :: "string api_result"
  comic_result :: "unit api_result"
  page_result :: "nat \<Rightarrow> string api_result"
  row_result :: "nat \<Rightarrow> unit api_result"
  type_error :: jsstring

text \<open>\<open>.replace(/\s+/g, '-')\<close>: every run of white space becomes one hyphen.\<close>

function hyphenate :: "jsstring \<Rightarrow> jsstring" where
  "hyphenate [] = []"
| "hyphenate (c # cs) =
     (if is_js_whitespace c then 45 # hyphenate (dropWhile is_js_whitespace cs)
      else c # hyphenate cs)"
  by pat_completeness auto
termination
  by (relation "measure length") (auto simp: length_dropWhile_le less_Suc_eq_le)

text \<open>
  The slug of \<open>handleSubmit\<close>: the title in lower case, without the characters that are
  neither \<open>\w\<close> nor \<open>\s\<close>, hyphenated, then a hyphen and the last six digits of the
  time.
\<close>

definition make_slug :: "submit_env \<Rightarrow> jsstring \<Rightarrow> jsstring" where
  "make_slug env t =
     (let digits = show_nat (now env)
      in hyphenate (filter (\<lambda>c. is_word_char c \<or> is_js_whitespace c) (toLowerCase env t))
         @ lit ''-'' @ lit (drop (length digits - 6) digits))"

text \<open>\<open>err instanceof Error ? err.message : 'Failed to upload comic'\<close>\<close>

definition thrown_message :: "jsstring option \<Rightarrow> jsstring" where
  "thrown_message m = (case m of Some msg \<Rightarrow> msg | None \<Rightarrow> lit ''Failed to upload comic'')"

text \<open>
  The loop over the pages from loop index \<open>i\<close> on: the calls made, and the message of
  the exception that ended the loop, if one did. The result of \<open>addComicPage\<close> is not
  looked at; only a rejected promise ends the loop there.
\<close>

fun upload_pages ::
  "submit_env \<Rightarrow> string \<Rightarrow> string \<Rightarrow> nat \<Rightarrow> js_file option list
     \<Rightarrow> wizard_effect list \<times> jsstring option" where
  "upload_pages env uid cid i [] = ([], None)"
| "upload_pages env uid cid i (p # ps) =
     (case p of
        None \<Rightarrow> ([], Some (type_error env))
      | Some f \<Rightarrow>
          (case page_result env i of
             Throw m \<Rightarrow> ([UploadComicPage uid cid (i + 1) f], Some (thrown_message m))
           | Error \<Rightarrow>
               ([UploadComicPage uid cid (i + 1) f],
                Some (lit ''Failed to upload page '' @ lit (show_nat (i + 1))))
           | Ok pageUrl \<Rightarrow>
               (case row_result env i of
                  Throw m \<Rightarrow>
                    ([UploadComicPage uid cid (i + 1) f, AddComicPage cid (i + 1) pageUrl],
                     Some (thrown_message m))
                | _ \<Rightarrow>
                    (case upload_pages env uid cid (Suc i) ps of
                       (es, r) \<Rightarrow>
                         (UploadComicPage uid cid (i + 1) f # AddComicPage cid (i + 1) pageUrl # es,
                          r)))))"

text \<open>The body of the \<open>try\<close> of \<open>handleSubmit\<close>.\<close>

definition submit_calls ::
  "submit_env \<Rightarrow> string \<Rightarrow> wizard \<Rightarrow> js_file \<Rightarrow> wizard_effect list \<times> jsstring option" where
  "submit_calls env uid s cover =
     (let upload_cover = UploadComicCover uid (comicId s) cover in
      case cover_result env of
        Throw m \<Rightarrow> ([upload_cover], Some (thrown_message m))
      | Error \<Rightarrow> ([upload_cover], Some (lit ''Failed to upload cover image''))
      | Ok coverUrl \<Rightarrow>
          (let create_comic = CreateUserComic
                 \<lparr> uc_user_id = uid, uc_title = title s, slug = make_slug env (title s),
                   uc_description = Some (description s), uc_artist = artist s,
                   cover_image_url = coverUrl, uc_language = language s,
                   page_count = int (length (comicPages s)), status = ''published'' \<rparr>
           in case comic_result env of
                Throw m \<Rightarrow> ([upload_cover, create_comic], Some (thrown_message m))
              | Error \<Rightarrow> ([upload_cover, create_comic], Some (lit ''Failed to create comic''))
              | Ok _ \<Rightarrow>
                  (case upload_pages env uid (comicId s) 0 (comicPages s) of
                     (es, r) \<Rightarrow> (upload_cover # create_comic # es, r))))"

text \<open>
  \<open>handleSubmit\<close>, taken as one step from the click to the end of its \<open>finally\<close>: the
  state and the calls made. The state in between, in which \<open>isSubmitting\<close> is set, is
  not a state of the model.
\<close>

definition handleSubmit :: "submit_env \<Rightarrow> wizard \<Rightarrow> wizard \<times> wizard_effect list" where
  "handleSubmit env s =
     (case w_user s of
        None \<Rightarrow> (s, [])
      | Some uid \<Rightarrow>
          (case coverImage s of
             None \<Rightarrow> (s\<lparr>w_error := Some (lit ''Please fill in all required fields'')\<rparr>, [])
           | Some cover \<Rightarrow>
               if js_trim (title s) = [] \<or> js_trim (artist s) = [] \<or> length (comicPages s) = 0
               then (s\<lparr>w_error := Some (lit ''Please fill in all required fields'')\<rparr>, [])
               else
                 (case submit_calls env uid s cover of
                    (es, Some msg) \<Rightarrow> (s\<lparr>isSubmitting := False, w_error := Some msg\<rparr>, es)
                  | (es, None) \<Rightarrow>
                      (s\<lparr>isSubmitting := False, w_error := None,
                         w_success := Some (lit ''Comic uploaded successfully!'')\<rparr>,
                       es @ [RedirectLater ''/dashboard/comics'']))))"

text \<open>
  The calls of a submission in which every call succeeds, in the order of the source:
  the cover, the comic, then for each page its upload and its row.
\<close>

definition page_calls :: "submit_env \<Rightarrow> string \<Rightarrow> string \<Rightarrow> nat \<Rightarrow> js_file \<Rightarrow> wizard_effect list" where
  "page_calls env uid cid k f =
     [UploadComicPage uid cid k f,
      AddComicPage cid k (case page_result env (k - 1) of Ok u \<Rightarrow> u | _ \<Rightarrow> [])]"

text \<open>The page numbers and files of the page uploads among some calls, in order.\<close>

definition uploaded_pages :: "wizard_effect list \<Rightarrow> (nat \<times> js_file) list" where
  "uploaded_pages es =
     concat (map (\<lambda>e. case e of UploadComicPage u c k f \<Rightarrow> [(k, f)] | _ \<Rightarrow> []) es)"

text \<open>Every page upload succeeds and no insert of a page row throws.\<close>

definition pages_succeed :: "submit_env \<Rightarrow> bool" where
  "pages_succeed env = (\<forall>k. is_ok (page_result env k) \<and> \<not> is_throw (row_result env k))"

text \<open>The files of the entries before the first \<open>undefined\<close> one.\<close>

fun defined_prefix :: "'a option list \<Rightarrow> 'a list" where
  "defined_prefix [] = []"
| "defined_prefix (None # xs) = []"
| "defined_prefix (Some x # xs) = x # defined_prefix xs"

text \<open>
  The order of a submission as the specification gives it: the cover is uploaded, the
  comic record is created, then for each page number \<open>k = 1, ..., N\<close> the page is
  uploaded and its row inserted with \<open>page_number = k\<close>.
\<close>

definition submit_plan :: "submit_env \<Rightarrow> string \<Rightarrow> wizard \<Rightarrow> js_file \<Rightarrow> wizard_effect list" where
  "submit_plan env uid s cover =
     UploadComicCover uid (comicId s) cover
     # CreateUserComic
         \<lparr> uc_user_id = uid, uc_title = title s, slug = make_slug env (title s),
           uc_description = Some (description s), uc_artist = artist s,
           cover_image_url = (case cover_result env of Ok u \<Rightarrow> u | _ \<Rightarrow> []),
           uc_language = language s, page_count = int (length (comicPages s)),
           status = ''published'' \<rparr>
     # concat (map (\<lambda>(k, f). page_calls env uid (comicId s) k f)
                (enumerate 1 (defined_prefix (comicPages s))))"

text \<open>The validation at the start of \<open>handleSubmit\<close> passes.\<close>

definition submittable :: "wizard \<Rightarrow> bool" where
  "submittable s =
     (js_trim (title s) \<noteq> [] \<and> js_trim (artist s) \<noteq> [] \<and> coverImage s \<noteq> None
      \<and> length (comicPages s) \<noteq> 0)"

subsection \<open>The events of the wizard\<close>

datatype wizard_event =
    CoverUpload "js_file option"
  | CoverLoaded nat
  | RemoveCover
  | PagesUpload "js_file list option"
  | PreviewsLoaded nat
  | DragStart nat
  | DragEnter nat
  | DragEnd
  | RemovePage nat
  | SetTitle jsstring
  | SetArtist jsstring
  | SetDescription jsstring
  | SetLanguage string
  | TagToggle string
  | NextStep
  | PreviousStep
  | Submit submit_env

fun fire :: "wizard_event \<Rightarrow> wizard \<Rightarrow> wizard" where
  "fire (CoverUpload fo) s = handleCoverUpload fo s"
| "fire (CoverLoaded k) s = coverLoaded k s"
| "fire RemoveCover s = removeCoverImage s"
| "fire (PagesUpload fso) s = handlePagesUpload fso s"
| "fire (PreviewsLoaded k) s = previewsLoaded k s"
| "fire (DragStart i) s = pageDragStart i s"
| "fire (DragEnter i) s = pageDragEnter i s"
| "fire DragEnd s = pageDragEnd s"
| "fire (RemovePage i) s = handleRemovePage i s"
| "fire (SetTitle t) s = s\<lparr>title := t\<rparr>"
| "fire (SetArtist a) s = s\<lparr>artist := a\<rparr>"
| "fire (SetDescription d) s = s\<lparr>description := d\<rparr>"
| "fire (SetLanguage l) s = s\<lparr>language := l\<rparr>"
| "fire (TagToggle t) s = handleTagToggle t s"
| "fire NextStep s = goToNextStep s"
| "fire PreviousStep s = goToPreviousStep s"
| "fire (Submit env) s = fst (handleSubmit env s)"

text \<open>
  When the rendered page offers an event: each step renders its own controls; at the
  cover step the file input is shown while there is no cover preview and the remove
  button once there is one; the page
  tiles, with their drag handlers and remove buttons, are rendered from
  \<open>pagePreviewUrls\<close> when \<open>comicPages\<close> is not empty; \<open>Next\<close> is shown before step 4,
  \<open>Publish\<close> from step 4 on; a read in flight can finish at any time.
\<close>

fun enabled :: "wizard \<Rightarrow> wizard_event \<Rightarrow> bool" where
  "enabled s (CoverUpload fo) = (currentStep s = 1 \<and> coverPreview s = None)"
| "enabled s (CoverLoaded k) = (k < length (coverReads s))"
| "enabled s RemoveCover = (currentStep s = 1 \<and> coverPreview s \<noteq> None)"
| "enabled s (PagesUpload fso) = (currentStep s = 2)"
| "enabled s (PreviewsLoaded k) = (k < length (previewReads s))"
| "enabled s (DragStart i) =
     (currentStep s = 2 \<and> length (comicPages s) > 0 \<and> i < length (pagePreviewUrls s))"
| "enabled s (DragEnter i) =
     (currentStep s = 2 \<and> length (comicPages s) > 0 \<and> i < length (pagePreviewUrls s))"
| "enabled s DragEnd =
     (currentStep s = 2 \<and> length (comicPages s) > 0 \<and> length (pagePreviewUrls s) > 0)"
| "enabled s (RemovePage i) =
     (currentStep s = 2 \<and> length (comicPages s) > 0 \<and> i < length (pagePreviewUrls s))"
| "enabled s (SetTitle t) = (currentStep s = 3)"
| "enabled s (SetArtist a) = (currentStep s = 3)"
| "enabled s (SetDescription d) = (currentStep s = 3)"
| "enabled s (SetLanguage l) = (currentStep s = 3)"
| "enabled s (TagToggle t) = (currentStep s = 3)"
| "enabled s NextStep = (currentStep s < 4)"
| "enabled s PreviousStep = (currentStep s > 1 \<and> \<not> isSubmitting s)"
| "enabled s (Submit env) = (\<not> currentStep s < 4 \<and> \<not> isSubmitting s)"

text \<open>A run of events from a state: \<open>None\<close> when some event is not offered.\<close>

fun run :: "wizard_event list \<Rightarrow> wizard \<Rightarrow> wizard option" where
  "run [] s = Some s"
| "run (e # es) s = (if enabled s e then run es (fire e s) else None)"

text \<open>
  The two arrays correspond index by index: they have the same length and the preview
  at each index is the data URL of the page at that index (an \<open>undefined\<close> entry facing
  an \<open>undefined\<close> entry).
\<close>

definition aligned :: "wizard \<Rightarrow> bool" where
  "aligned s = (pagePreviewUrls s = map (map_option file_data) (comicPages s))"

text \<open>The number of entries of \<open>comicPages\<close> that are files.\<close>

definition selected_files :: "wizard \<Rightarrow> nat" where
  "selected_files s = length (filter (\<lambda>p. p \<noteq> None) (comicPages s))"

section \<open>Concrete values\<close>

definition ex_folder :: "string \<Rightarrow> bool \<Rightarrow> int \<Rightarrow> folder" where
  "ex_folder n d k =
     \<lparr> fid = n, f_user_id = ''u1'', fname = lit n, is_default = d, display_order = k,
       color = lit ''#3498db'', icon = lit ''folder'' \<rparr>"

text \<open>
  A store for the examples: the table of folders, in which a successful update call
  writes \<open>display_order\<close> on the row with the given id.
\<close>

definition write_display_order :: "string \<Rightarrow> int \<Rightarrow> folder list \<Rightarrow> folder list" where
  "write_display_order folder_id v rows =
     map (\<lambda>r. if fid r = folder_id then r\<lparr>display_order := v\<rparr> else r) rows"

definition ex_page :: bookmarks_page where
  "ex_page =
     \<lparr> user = Some ''u1'',
       folders = [ex_folder ''a'' True 0, ex_folder ''b'' False 1, ex_folder ''c'' False 2],
       activeFolder = ''a'',
       bookmarkStats = \<lparr> total_folders = 3, total_bookmarks = 0, folders_remaining = 97 \<rparr>,
       error = None, success = None, dragItem = Some 0, dragOverItem = Some 2 \<rparr>"

definition ex_file :: "string \<Rightarrow> js_file" where
  "ex_file n =
     \<lparr> file_name = lit n, file_type = ''image/png'', file_size = 1000, file_data = ''data:'' @ n \<rparr>"

definition ascii_lower :: "jsstring \<Rightarrow> jsstring" where
  "ascii_lower t = map (\<lambda>c. if 65 \<le> c \<and> c \<le> 90 then c + 32 else c) t"

text \<open>An environment in which every call succeeds.\<close>

definition ex_env :: submit_env where
  "ex_env =
     \<lparr> toLowerCase = ascii_lower, now = 1700000123456, cover_result = Ok ''cover-url'',
       comic_result = Ok (), page_result = (\<lambda>k. Ok ''page-url''), row_result = (\<lambda>k. Ok ()),
       type_error = lit ''Cannot read properties of undefined'' \<rparr>"

text \<open>The wizard at the pages step with three pages loaded and a drag from tile 0 to tile 2.\<close>

definition ex_wizard :: wizard where
  "ex_wizard =
     (initial_wizard (Some ''u1'') ''c1'')
       \<lparr> currentStep := 2, coverImage := Some (ex_file ''cover''),
         comicPages := [Some (ex_file ''p1''), Some (ex_file ''p2''), Some (ex_file ''p3'')],
         pagePreviewUrls := [Some ''data:p1'', Some ''data:p2'', Some ''data:p3''],
         w_dragItem := Some 0, w_dragOverItem := Some 2 \<rparr>"

text \<open>
  A user whose cap is 100 and who owns 100 folders, and one more folder to insert.
\<close>

definition ex_profiles :: "profile list" where
  "ex_profiles = [\<lparr> pid = ''u1'', max_bookmark_folders = Some 100 \<rparr>]"

definition hundred_folders :: "folder list" where
  "hundred_folders = map (\<lambda>k. ex_folder (CHR ''f'' # show_nat k) False (int k)) [0..<100]"

definition one_more_folder :: folder where
  "one_more_folder = ex_folder ''new'' False 100"

text \<open>Two stored comics, and a third row whose slug is that of the first.\<close>

definition ex_comic :: "string \<Rightarrow> string \<Rightarrow> user_comic" where
  "ex_comic i sl =
     \<lparr> uc_user_id = ''u1'', uc_title = lit sl, slug = lit sl, uc_description = None,
       uc_artist = lit ''artist'', cover_image_url = ''cover-url'', uc_language = ''English'',
       page_count = 3, status = ''published'', uc_id = i \<rparr>"

definition ex_comics :: "user_comic list" where
  "ex_comics = [ex_comic ''c1'' ''my-comic-123456'', ex_comic ''c2'' ''other-654321'']"

text \<open>
  The wizard at the review step with three pages, and an environment in which the upload
  of the second page resolves with an error.
\<close>

definition ex_review :: wizard where
  "ex_review = ex_wizard\<lparr>currentStep := 4, title := lit ''My Comic'', artist := lit ''Me''\<rparr>"

definition ex_env_page2 :: submit_env where
  "ex_env_page2 = ex_env\<lparr>page_result := (\<lambda>k. if k = 1 then Error else Ok ''page-url'')\<rparr>"

text \<open>
  Stored pages of a comic, the outcomes of the three update calls when the first one
  resolves with an error, and a drag of the middle folder onto itself.
\<close>

definition ex_rows :: "comic_page list" where
  "ex_rows =
     [\<lparr> pg_id = ''p1'', pg_comic_id = ''c1'', page_number = 1, image_url = ''url1'' \<rparr>,
      \<lparr> pg_id = ''p2'', pg_comic_id = ''c1'', page_number = 2, image_url = ''url2'' \<rparr>]"

definition first_update_fails :: "nat \<Rightarrow> unit api_result" where
  "first_update_fails k = (if k = 0 then Error else Ok ())"

definition ex_page_same :: bookmarks_page where
  "ex_page_same = ex_page\<lparr>dragItem := Some 1, dragOverItem := Some 1\<rparr>"

text \<open>
  A cover and a first page are selected; the run stops before the read of the page has
  finished.
\<close>

definition first_upload :: "wizard_event list" where
  "first_upload =
     [CoverUpload (Some (ex_file ''cover'')), NextStep, PagesUpload (Some [ex_file ''p1''])]"

text \<open>
  A page is removed while the read of a second upload is in flight, which leaves one
  preview more than there are pages; 99 more files bring the pages to 100 and the
  previews to 101; the last tile is then dragged onto the first.
\<close>

definition ninety_nine_files :: "js_file list" where
  "ninety_nine_files = replicate 99 (ex_file ''p'')"

definition stale_preview_run :: "wizard_event list" where
  "stale_preview_run =
     [CoverUpload (Some (ex_file ''cover'')), NextStep,
      PagesUpload (Some [ex_file ''p1'']), PreviewsLoaded 0,
      PagesUpload (Some [ex_file ''p2'']), RemovePage 0, PreviewsLoaded 0,
      PagesUpload (Some ninety_nine_files), PreviewsLoaded 0,
      DragStart 100, DragEnter 0, DragEnd,
      NextStep]"

text \<open>
  A page is removed while the previews of a second upload are being read, and the reads
  finish: no read is in flight at the end.
\<close>

definition removal_during_read :: "wizard_event list" where
  "removal_during_read =
     [CoverUpload (Some (ex_file ''cover'')), CoverLoaded 0, NextStep,
      PagesUpload (Some [ex_file ''p1'']), PreviewsLoaded 0,
      PagesUpload (Some [ex_file ''p2'']), RemovePage 0, PreviewsLoaded 0]"

text \<open>
  After the same removal during a read there are two tiles for one page; the second
  tile is dragged onto the first and the tile of the page is then removed.
\<close>

definition page_without_file :: "wizard_event list" where
  "page_without_file =
     [CoverUpload (Some (ex_file ''cover'')), CoverLoaded 0, NextStep,
      PagesUpload (Some [ex_file ''p1'']), PreviewsLoaded 0,
      PagesUpload (Some [ex_file ''p2'']), RemovePage 0, PreviewsLoaded 0,
      DragStart 1, DragEnter 0, DragEnd,
      RemovePage 1]"

text \<open>
  Stored pages numbered 1 and 2 are to be put into the opposite order.
\<close>

definition swapped_order :: "string list" where
  "swapped_order = [''p2'', ''p1'']"

section \<open>Facts about the array operations\<close>

text \<open>
  The splices keep what they do not touch: lengths, the entry inserted, and the list
  around it. The literal \<open>1\<close> of the source appears as \<open>Suc 0\<close> after simplification.
\<close>

lemma length_splice_insert [simp]:
  "length (splice_insert j x xs) = Suc (length xs)"
  by (auto simp: splice_insert_def)

lemma splice_insert_nth:
  "j \<le> length xs \<Longrightarrow> splice_insert j x xs ! j = x"
  by (simp add: splice_insert_def nth_append)

lemma map_splice_remove:
  "map f (splice_remove i n xs) = splice_remove i n (map f xs)"
  by (simp add: splice_remove_def take_map drop_map)

lemma map_splice_insert:
  "map f (splice_insert j x xs) = splice_insert j (f x) (map f xs)"
  by (simp add: splice_insert_def take_map drop_map)

lemma map_enumerate_order:
  "map display_order (map (\<lambda>(index, f). f\<lparr>display_order := int index\<rparr>) (enumerate n xs))
     = map int [n..<n + length xs]"
  by (induction xs arbitrary: n) (simp_all add: upt_rec)

lemma map_enumerate_forget:
  "map (\<lambda>f. f\<lparr>display_order := 0\<rparr>) (map (\<lambda>(index, f). f\<lparr>display_order := int index\<rparr>) (enumerate n xs))
     = map (\<lambda>f. f\<lparr>display_order := 0\<rparr>) xs"
  by (induction xs arbitrary: n) simp_all

lemma nth_map_enumerate:
  "k < length xs \<Longrightarrow>
   map (\<lambda>(index, f). f\<lparr>display_order := int index\<rparr>) (enumerate n xs) ! k
     = (xs ! k)\<lparr>display_order := int (n + k)\<rparr>"
  by (simp add: nth_enumerate_eq)

lemma length_splice_remove_Suc0:
  "i < length xs \<Longrightarrow> length (splice_remove i (Suc 0) xs) = length xs - 1"
  by (auto simp: splice_remove_def)

lemma splice_remove_insert_Suc0:
  "j \<le> length xs \<Longrightarrow> splice_remove j (Suc 0) (splice_insert j x xs) = xs"
  by (simp add: splice_remove_def splice_insert_def)

lemma updatedFolders_in_range:
  "i < length fs \<Longrightarrow>
   updatedFolders blank i j fs =
     map (\<lambda>(index, f). f\<lparr>display_order := int index\<rparr>)
       (enumerate 0 (splice_insert j (fs ! i) (splice_remove i 1 fs)))"
  by (simp add: updatedFolders_def js_index_def)

lemma updatedFolders_positions:
  assumes "i < length fs" "j < length fs"
  shows "map display_order (updatedFolders blank i j fs) = map int [0..<length fs]"
proof -
  have "length (splice_insert j (fs ! i) (splice_remove i 1 fs)) = length fs"
    using assms by (simp add: length_splice_remove_Suc0)
  then show ?thesis
    using map_enumerate_order [of 0 "splice_insert j (fs ! i) (splice_remove i 1 fs)"] assms
    by (simp add: updatedFolders_in_range del: map_map)
qed

lemma updatedFolders_moved:
  assumes "i < length fs" "j < length fs"
  shows "updatedFolders blank i j fs ! j = (fs ! i)\<lparr>display_order := int j\<rparr>"
proof -
  let ?c = "splice_insert j (fs ! i) (splice_remove i 1 fs)"
  have len: "length (splice_remove i 1 fs) = length fs - 1"
    using assms by (simp add: length_splice_remove_Suc0)
  then have j: "j \<le> length (splice_remove i 1 fs)" using assms by simp
  then have "?c ! j = fs ! i" by (rule splice_insert_nth)
  moreover have "j < length ?c" using j by simp
  ultimately show ?thesis
    using nth_map_enumerate [of j ?c 0] assms by (simp add: updatedFolders_in_range)
qed

lemma updatedFolders_others:
  assumes "i < length fs" "j < length fs"
  shows "map (\<lambda>f. f\<lparr>display_order := 0\<rparr>) (splice_remove j 1 (updatedFolders blank i j fs))
       = map (\<lambda>f. f\<lparr>display_order := 0\<rparr>) (splice_remove i 1 fs)"
proof -
  let ?r = "splice_remove i 1 fs"
  let ?c = "splice_insert j (fs ! i) ?r"
  let ?z = "\<lambda>f. f\<lparr>display_order := (0::int)\<rparr>"
  have j: "j \<le> length ?r" using assms by (simp add: length_splice_remove_Suc0)
  have "map ?z (splice_remove j 1 (updatedFolders blank i j fs))
      = splice_remove j 1 (map ?z (updatedFolders blank i j fs))"
    by (rule map_splice_remove)
  also have "map ?z (updatedFolders blank i j fs) = map ?z ?c"
    using assms map_enumerate_forget [of 0 ?c] by (simp add: updatedFolders_in_range del: map_map)
  also have "map ?z ?c = splice_insert j (?z (fs ! i)) (map ?z ?r)"
    by (rule map_splice_insert)
  also have "splice_remove j 1 (splice_insert j (?z (fs ! i)) (map ?z ?r)) = map ?z ?r"
    using j by (simp add: splice_remove_insert_Suc0)
  finally show ?thesis .
qed

lemma move_entry_in_range:
  "i < length xs \<Longrightarrow> move_entry i j xs = splice_insert j (xs ! i) (splice_remove i 1 xs)"
  by (simp add: move_entry_def js_index_def)

lemma move_entry_length:
  "i < length xs \<Longrightarrow> length (move_entry i j xs) = length xs"
  by (simp add: move_entry_in_range length_splice_remove_Suc0)

lemma move_entry_moved:
  "i < length xs \<Longrightarrow> j < length xs \<Longrightarrow> move_entry i j xs ! j = xs ! i"
  by (simp add: move_entry_in_range length_splice_remove_Suc0 splice_insert_nth)

lemma move_entry_others:
  "i < length xs \<Longrightarrow> j < length xs \<Longrightarrow>
   splice_remove j 1 (move_entry i j xs) = splice_remove i 1 xs"
  by (simp add: move_entry_in_range length_splice_remove_Suc0 splice_remove_insert_Suc0)

lemma move_entry_defined:
  "i < length fs \<Longrightarrow> move_entry i j (map Some fs) = map Some (splice_insert j (fs ! i) (splice_remove i 1 fs))"
  by (simp add: move_entry_in_range map_splice_insert map_splice_remove)

lemma upload_pages_all_ok:
  "pages_succeed env \<Longrightarrow>
   upload_pages env uid cid i (map Some fs)
     = (concat (map (\<lambda>(k, f). page_calls env uid cid k f) (enumerate (Suc i) fs)), None)"
proof (induction fs arbitrary: i)
  case Nil
  then show ?case by simp
next
  case (Cons f fs)
  from Cons.prems have "is_ok (page_result env i)"
    by (simp add: pages_succeed_def)
  then obtain u where u: "page_result env i = Ok u"
    by (cases "page_result env i") (simp_all add: is_ok_def)
  from Cons.prems have r: "\<not> is_throw (row_result env i)"
    by (simp add: pages_succeed_def)
  show ?case
    using Cons.IH [OF Cons.prems, of "Suc i"] u r
    by (simp add: page_calls_def is_throw_def split: api_result.splits)
qed

lemma uploaded_pages_page_calls:
  "uploaded_pages (concat (map (\<lambda>(k, f). page_calls env uid cid k f) kfs)) = kfs"
  by (induction kfs) (auto simp: uploaded_pages_def page_calls_def)

lemma uploaded_pages_all_ok:
  "pages_succeed env \<Longrightarrow>
   uploaded_pages (fst (upload_pages env uid cid 0 (map Some fs))) = enumerate 1 fs"
  by (simp add: upload_pages_all_ok uploaded_pages_page_calls)

lemma handleDragEnd_folders:
  "dragItem s = Some i \<Longrightarrow> dragOverItem s = Some j \<Longrightarrow>
   folders (fst (handleDragEnd blank upd res s db)) = updatedFolders blank i j (folders s)"
  by (simp add: handleDragEnd_def Let_def split: prod.splits)

lemma pageDragEnd_pages:
  "w_dragItem w = Some a \<Longrightarrow> w_dragOverItem w = Some b \<Longrightarrow>
   comicPages (pageDragEnd w) = move_entry a b (comicPages w)"
  by (simp add: pageDragEnd_def)

section \<open>Reordering by drag and drop\<close>

text \<open>
  Claim C1. A list of at most 100 items is reordered by moving index \<open>i\<close> to index \<open>j\<close>,
  both indices of the list. For the folders, \<open>handleDragEnd\<close> gives the entries the
  positions \<open>0, ..., N - 1\<close> in order, the moved folder is at index \<open>j\<close> with
  \<open>display_order = j\<close>, and the other folders keep their relative order. For the pages
  of the wizard, the page numbers that the upload loop of \<open>handleSubmit\<close> gives to the
  reordered pages are \<open>1, ..., N\<close> in order, the moved page gets \<open>j + 1\<close>, and the
  other pages keep their relative order.
\<close>

theorem reorder_assigns_positions:
  assumes "dragItem s = Some i" and "dragOverItem s = Some j"
    and "length (folders s) \<le> 100" and "i < length (folders s)" and "j < length (folders s)"
    and "w_dragItem w = Some a" and "w_dragOverItem w = Some b"
    and "comicPages w = map Some files"
    and "length files \<le> 100" and "a < length files" and "b < length files"
    and "pages_succeed env"
  shows "(let fs' = folders (fst (handleDragEnd blank upd res s db)) in
            map display_order fs' = map int [0..<length (folders s)]
          \<and> fs' ! j = (folders s ! i)\<lparr>display_order := int j\<rparr>
          \<and> map (\<lambda>f. f\<lparr>display_order := 0\<rparr>) (splice_remove j 1 fs')
              = map (\<lambda>f. f\<lparr>display_order := 0\<rparr>) (splice_remove i 1 (folders s)))
       \<and> (let ps = uploaded_pages (fst (upload_pages env uid cid 0 (comicPages (pageDragEnd w)))) in
            map fst ps = [1..<Suc (length files)]
          \<and> ps ! b = (b + 1, files ! a)
          \<and> splice_remove b 1 (map snd ps) = splice_remove a 1 files)"
proof -
  let ?fs = "updatedFolders blank i j (folders s)"
  let ?moved = "splice_insert b (files ! a) (splice_remove a 1 files)"
  have f: "folders (fst (handleDragEnd blank upd res s db)) = ?fs"
    using assms(1,2) by (rule handleDragEnd_folders)
  have len: "length ?moved = length files"
    using assms(10) by (simp add: length_splice_remove_Suc0)
  have b: "b \<le> length (splice_remove a 1 files)"
    using assms(10,11) by (simp add: length_splice_remove_Suc0)
  have "comicPages (pageDragEnd w) = move_entry a b (map Some files)"
    using assms(6,7,8) by (simp add: pageDragEnd_pages)
  also have "\<dots> = map Some ?moved"
    using assms(10) by (rule move_entry_defined)
  finally have p: "uploaded_pages (fst (upload_pages env uid cid 0 (comicPages (pageDragEnd w))))
      = enumerate 1 ?moved"
    using assms(12) by (simp add: uploaded_pages_all_ok)
  have p1: "map fst (enumerate 1 ?moved) = [1..<Suc (length files)]"
    using len by (simp add: map_fst_enumerate)
  have p2: "enumerate 1 ?moved ! b = (b + 1, files ! a)"
    using len assms(11) splice_insert_nth [OF b, of "files ! a"] by (simp add: nth_enumerate_eq)
  have p3: "splice_remove b 1 (map snd (enumerate 1 ?moved)) = splice_remove a 1 files"
    using b by (simp add: splice_remove_insert_Suc0)
  show ?thesis
    unfolding f p Let_def
    using updatedFolders_positions [OF assms(4,5), of blank]
      updatedFolders_moved [OF assms(4,5), of blank]
      updatedFolders_others [OF assms(4,5), of blank] p1 p2 p3
    by simp
qed

text \<open>The theorem at three folders and three pages, moving index 0 to index 2.\<close>

theorem reorder_assigns_positions_witness:
  "dragItem ex_page = Some 0 \<and> dragOverItem ex_page = Some 2 \<and> length (folders ex_page) = 3
   \<and> pages_succeed ex_env
   \<and> map fid (folders (fst (handleDragEnd (ex_folder [] False 0) write_display_order
            (\<lambda>k. Ok ()) ex_page (folders ex_page)))) = [''b'', ''c'', ''a'']
   \<and> map display_order (folders (fst (handleDragEnd (ex_folder [] False 0) write_display_order
            (\<lambda>k. Ok ()) ex_page (folders ex_page)))) = [0, 1, 2]
   \<and> folders (fst (handleDragEnd (ex_folder [] False 0) write_display_order
            (\<lambda>k. Ok ()) ex_page (folders ex_page))) ! 2 = ex_folder ''a'' True 2
   \<and> uploaded_pages (fst (upload_pages ex_env ''u1'' ''c1'' 0 (comicPages (pageDragEnd ex_wizard))))
       ! 2 = (3, ex_file ''p1'')
   \<and> map fst (uploaded_pages (fst (upload_pages ex_env ''u1'' ''c1'' 0
            (comicPages (pageDragEnd ex_wizard))))) = [1, 2, 3]"
proof -
  let ?files = "[ex_file ''p1'', ex_file ''p2'', ex_file ''p3'']"
  have h1: "dragItem ex_page = Some 0" and h2: "dragOverItem ex_page = Some 2"
    and h3: "length (folders ex_page) \<le> 100" and h4: "0 < length (folders ex_page)"
    and h5: "2 < length (folders ex_page)" and l3: "length (folders ex_page) = 3"
    by (simp_all add: ex_page_def)
  have h6: "w_dragItem ex_wizard = Some 0" and h7: "w_dragOverItem ex_wizard = Some 2"
    and h8: "comicPages ex_wizard = map Some ?files"
    by (simp_all add: ex_wizard_def)
  have h9: "length ?files \<le> 100" and h10: "0 < length ?files" and h11: "2 < length ?files"
    by simp_all
  have h12: "pages_succeed ex_env"
    by (simp add: pages_succeed_def ex_env_def is_ok_def is_throw_def)
  have ids: "map fid (folders (fst (handleDragEnd (ex_folder [] False 0) write_display_order
            (\<lambda>k. Ok ()) ex_page (folders ex_page)))) = [''b'', ''c'', ''a'']"
    by (simp add: handleDragEnd_def ex_page_def updatedFolders_def js_index_def splice_insert_def
          splice_remove_def enumerate_eq_zip ex_folder_def Let_def split: prod.splits)
  have upt3: "[1..<Suc 3] = [1, 2, 3]" by (simp add: upt_rec)
  have upt0: "[0..<3] = [0, 1, 2]" by (simp add: upt_rec)
  from reorder_assigns_positions [OF h1 h2 h3 h4 h5 h6 h7 h8 h9 h10 h11 h12,
      of "ex_folder [] False 0" write_display_order "\<lambda>k. Ok ()" "folders ex_page" "''u1''" "''c1''"]
  show ?thesis
    using h1 h2 l3 h12 ids upt3 upt0
    by (simp add: Let_def ex_page_def ex_folder_def)
qed


section \<open>The folder cap\<close>

text \<open>
  The trigger compares the number of folders stored before the insert with the cap by
  \<open>>\<close>: at the cap itself the insert passes.
\<close>

lemma check_folder_limit_at_cap:
  "max_folders_of ps (f_user_id new) = Some m \<Longrightarrow> folder_count bf (f_user_id new) = m \<Longrightarrow>
   check_folder_limit ps bf new = Inr new"
  by (simp add: check_folder_limit_def)

lemma folder_count_ex:
  "folder_count (map (\<lambda>k. ex_folder (g k) d (h k)) ks) ''u1'' = int (length ks)"
  by (induction ks) (simp_all add: folder_count_def ex_folder_def)

lemma hundred_count: "folder_count hundred_folders ''u1'' = 100"
  unfolding hundred_folders_def folder_count_ex by simp

lemma hundred_max: "max_folders_of ex_profiles ''u1'' = Some 100"
  by (simp add: max_folders_of_def ex_profiles_def)

lemma one_more_user: "f_user_id one_more_folder = ''u1''"
  by (simp add: one_more_folder_def ex_folder_def)

lemma one_more_fresh_id: "fid one_more_folder \<notin> set (map fid hundred_folders)"
  by (auto simp: one_more_folder_def hundred_folders_def ex_folder_def)

lemma one_more_fresh_name:
  "(f_user_id one_more_folder, fname one_more_folder)
     \<notin> set (map (\<lambda>r. (f_user_id r, fname r)) hundred_folders)"
  by (auto simp: one_more_folder_def hundred_folders_def ex_folder_def lit_def)

lemma one_more_check:
  "check_folder_limit ex_profiles hundred_folders one_more_folder = Inr one_more_folder"
  by (rule check_folder_limit_at_cap [where m = 100]) (simp_all add: one_more_user hundred_max hundred_count)

lemma one_more_owner: "f_user_id one_more_folder \<in> set (map pid ex_profiles)"
  by (simp add: one_more_user ex_profiles_def)

lemma one_more_insert:
  "insert_bookmark_folder ex_profiles hundred_folders one_more_folder
        = Inr (hundred_folders @ [one_more_folder])"
  using one_more_fresh_id one_more_fresh_name one_more_owner
  by (simp add: insert_bookmark_folder_def one_more_check del: set_map)

lemma check_folder_limit_over_cap:
  "max_folders_of ps (f_user_id new) = Some m \<Longrightarrow> folder_count bf (f_user_id new) > m \<Longrightarrow>
   insert_bookmark_folder ps bf new = Inl (RaisedException ''Maximum folder limit reached'')"
  by (simp add: insert_bookmark_folder_def check_folder_limit_def)

text \<open>
  The page's own check, for comparison: with no folder remaining \<open>handleCreateFolder\<close>
  makes no call and reports the limit, and the statistics it reads give 0 remaining for
  the user with 100 folders.
\<close>

lemma handleCreateFolder_at_cap:
  "user s = Some uid \<Longrightarrow> folders_remaining (bookmarkStats s) \<le> 0 \<Longrightarrow>
   handleCreateFolder res fd s
     = (s\<lparr>error := Some (lit ''You have reached the maximum number of folders (100).'')\<rparr>, [])"
  by (simp add: handleCreateFolder_def)

lemma same_digits:
  "(x::nat) div 10 = y div 10 \<Longrightarrow> x mod 10 = y mod 10 \<Longrightarrow> x = y"
  by (metis div_mult_mod_eq)

lemma hundred_remaining:
  "map_option sr_folders_remaining (get_user_bookmark_stats ex_profiles hundred_folders [] ''u1'')
     = Some (Some 0)"
proof -
  have "distinct (map fid hundred_folders)"
    by (auto simp: hundred_folders_def ex_folder_def distinct_map inj_on_def o_def
          show_nat.simps dest: same_digits)
  moreover have "filter (\<lambda>r. f_user_id r = ''u1'') hundred_folders = hundred_folders"
    by (simp add: hundred_folders_def ex_folder_def filter_map o_def)
  moreover have "length hundred_folders = 100"
    by (simp add: hundred_folders_def)
  ultimately show ?thesis
    by (simp add: get_user_bookmark_stats_def ex_profiles_def Let_def distinct_remdups_id)
qed

text \<open>
  Claim C2, at the user who owns exactly 100 folders under a cap of 100: the trigger
  raises nothing, the insert is accepted and the user then owns 101 folders.
\<close>

theorem folder_101_accepted:
  "folder_count hundred_folders ''u1'' = 100
   \<and> max_folders_of ex_profiles ''u1'' = Some 100
   \<and> check_folder_limit ex_profiles hundred_folders one_more_folder = Inr one_more_folder
   \<and> insert_bookmark_folder ex_profiles hundred_folders one_more_folder
        = Inr (hundred_folders @ [one_more_folder])
   \<and> folder_count (table_after hundred_folders
          (insert_bookmark_folder ex_profiles hundred_folders one_more_folder)) ''u1'' = 101"
  using hundred_count
  by (simp add: hundred_max one_more_check one_more_insert table_after_def folder_count_def one_more_user)


section \<open>Deleting a folder\<close>

lemma find_distinct_id:
  "distinct (map fid fs) \<Longrightarrow> f \<in> set fs \<Longrightarrow> find (\<lambda>g. fid g = fid f) fs = Some f"
  by (induction fs) (auto simp: image_iff)

text \<open>
  Claim C10. The folders of the page have distinct ids (\<open>id\<close> is the primary key). For
  a folder of the list whose \<open>is_default\<close> is set, \<open>handleDeleteFolder\<close> on its id makes
  no call at all, so no delete, and leaves the folder list, the active folder and the
  statistics as they were; with a user signed in the only change is the error message.
  And when the handler does send a delete for an id, no folder of the list with that id
  is a default folder.
\<close>

theorem default_folder_not_deleted:
  assumes "distinct (map fid (folders s))"
  shows "(f \<in> set (folders s) \<and> is_default f \<longrightarrow>
            snd (handleDeleteFolder res (fid f) s) = []
          \<and> folders (fst (handleDeleteFolder res (fid f) s)) = folders s
          \<and> activeFolder (fst (handleDeleteFolder res (fid f) s)) = activeFolder s
          \<and> bookmarkStats (fst (handleDeleteFolder res (fid f) s)) = bookmarkStats s
          \<and> (user s \<noteq> None \<longrightarrow>
               fst (handleDeleteFolder res (fid f) s)
                 = s\<lparr>error := Some (lit ''Cannot delete default folders.'')\<rparr>))
       \<and> (DeleteBookmarkFolder folderId \<in> set (snd (handleDeleteFolder res folderId s)) \<longrightarrow>
            (\<forall>g \<in> set (folders s). fid g = folderId \<longrightarrow> \<not> is_default g))"
proof (intro conjI impI ballI)
  fix g
  assume del: "DeleteBookmarkFolder folderId \<in> set (snd (handleDeleteFolder res folderId s))"
    and g: "g \<in> set (folders s)" "fid g = folderId"
  from assms g have "find (\<lambda>h. fid h = folderId) (folders s) = Some g"
    using find_distinct_id by blast
  with del show "\<not> is_default g"
    by (auto simp: handleDeleteFolder_def split: option.splits if_splits)
next
  assume "f \<in> set (folders s) \<and> is_default f"
  with assms have fnd: "find (\<lambda>g. fid g = fid f) (folders s) = Some f" and d: "is_default f"
    using find_distinct_id by blast+
  show "snd (handleDeleteFolder res (fid f) s) = []"
    using fnd d by (simp add: handleDeleteFolder_def split: option.splits)
  show "folders (fst (handleDeleteFolder res (fid f) s)) = folders s"
    using fnd d by (simp add: handleDeleteFolder_def split: option.splits)
  show "activeFolder (fst (handleDeleteFolder res (fid f) s)) = activeFolder s"
    using fnd d by (simp add: handleDeleteFolder_def split: option.splits)
  show "bookmarkStats (fst (handleDeleteFolder res (fid f) s)) = bookmarkStats s"
    using fnd d by (simp add: handleDeleteFolder_def split: option.splits)
  assume "user s \<noteq> None"
  then show "fst (handleDeleteFolder res (fid f) s)
                 = s\<lparr>error := Some (lit ''Cannot delete default folders.'')\<rparr>"
    using fnd d by (auto simp: handleDeleteFolder_def split: option.splits)
qed

text \<open>
  The theorem at the example page: deleting the default folder \<open>a\<close> only sets the error;
  the delete of \<open>b\<close>, which is sent, is that of a folder that is not a default one.
\<close>

theorem default_folder_not_deleted_witness:
  "distinct (map fid (folders ex_page)) \<and> ex_folder ''a'' True 0 \<in> set (folders ex_page)
   \<and> is_default (ex_folder ''a'' True 0) \<and> user ex_page \<noteq> None
   \<and> handleDeleteFolder (Ok ()) ''a'' ex_page
       = (ex_page\<lparr>error := Some (lit ''Cannot delete default folders.'')\<rparr>, [])
   \<and> DeleteBookmarkFolder ''b'' \<in> set (snd (handleDeleteFolder (Ok ()) ''b'' ex_page))
   \<and> \<not> is_default (ex_folder ''b'' False 1)"
proof -
  have h: "distinct (map fid (folders ex_page))"
    by (simp add: ex_page_def ex_folder_def)
  have m: "ex_folder ''a'' True 0 \<in> set (folders ex_page)" "is_default (ex_folder ''a'' True 0)"
    "user ex_page \<noteq> None" "fid (ex_folder ''a'' True 0) = ''a''"
    "ex_folder ''b'' False 1 \<in> set (folders ex_page)" "fid (ex_folder ''b'' False 1) = ''b''"
    by (simp_all add: ex_page_def ex_folder_def)
  have b: "DeleteBookmarkFolder ''b'' \<in> set (snd (handleDeleteFolder (Ok ()) ''b'' ex_page))"
    by (simp add: handleDeleteFolder_def ex_page_def ex_folder_def Let_def)
  from default_folder_not_deleted [OF h, of "ex_folder ''a'' True 0" "Ok ()" "''b''"] m b h
  show ?thesis
    by (auto simp: prod_eq_iff)
qed


section \<open>The forward transition of the wizard\<close>

text \<open>
  At the pages step \<open>goToNextStep\<close> checks that \<open>comicPages\<close> has an entry and nothing
  else: not that the entry is a file, and not the cap of 100, which \<open>handlePagesUpload\<close>
  applies when files are selected.
\<close>

lemma next_step_checks_no_upper_bound:
  "currentStep s = 2 \<Longrightarrow>
   (currentStep (goToNextStep s) = 3 \<longleftrightarrow> length (comicPages s) \<noteq> 0)"
  by (auto simp: goToNextStep_def)

text \<open>
  In a state in which every entry of \<open>comicPages\<close> is a file and there are at most 100
  of them, the guards are those of the specification: a cover file at the cover step,
  between 1 and 100 page files at the pages step, a title and an artist that are not
  empty after trimming at the details step. A transition that does not succeed leaves
  the step unchanged and sets an error message; one that succeeds clears it.
\<close>

lemma next_step_guards:
  assumes "selected_files s = length (comicPages s)" and "selected_files s \<le> 100"
  shows "(currentStep s = 1 \<longrightarrow>
            (currentStep (goToNextStep s) = currentStep s + 1 \<longleftrightarrow> coverImage s \<noteq> None))
       \<and> (currentStep s = 2 \<longrightarrow>
            (currentStep (goToNextStep s) = currentStep s + 1
               \<longleftrightarrow> 1 \<le> selected_files s \<and> selected_files s \<le> 100))
       \<and> (currentStep s = 3 \<longrightarrow>
            (currentStep (goToNextStep s) = currentStep s + 1
               \<longleftrightarrow> js_trim (title s) \<noteq> [] \<and> js_trim (artist s) \<noteq> []))
       \<and> (currentStep (goToNextStep s) \<noteq> currentStep s + 1 \<longrightarrow>
            currentStep (goToNextStep s) = currentStep s \<and> w_error (goToNextStep s) \<noteq> None)
       \<and> (currentStep (goToNextStep s) = currentStep s + 1 \<longrightarrow> w_error (goToNextStep s) = None)"
  using assms by (auto simp: goToNextStep_def Suc_le_eq)

text \<open>
  Claim C3, at a run of events that the rendered page offers one after the other. A page
  is removed while the previews of an upload are being read, which leaves two tiles for
  one page; dragging the second tile, whose index is no index of \<open>comicPages\<close>, inserts
  \<open>undefined\<close>, and the tile of the page is then removed. The wizard is at the pages
  step, the only entry of \<open>comicPages\<close> is \<open>undefined\<close>, no page file is present, and
  \<open>goToNextStep\<close> moves on to the details step without an error message.
\<close>

theorem next_step_without_page_file:
  "map_option (\<lambda>s. (currentStep s, comicPages s, selected_files s, enabled s NextStep,
                     currentStep (goToNextStep s), w_error (goToNextStep s)))
     (run page_without_file (initial_wizard (Some ''u1'') ''c1''))
   = Some (2, [None], 0, True, 3, None)"
  by (simp add: page_without_file_def initial_wizard_def handleCoverUpload_def coverLoaded_def
        goToNextStep_def handlePagesUpload_def previewsLoaded_def handleRemovePage_def
        pageDragStart_def pageDragEnter_def pageDragEnd_def move_entry_def js_index_def
        splice_remove_def splice_insert_def ex_file_def selected_files_def)

section \<open>Unique slugs\<close>

lemma insert_user_comic_slugs:
  "distinct (map slug t) \<Longrightarrow> distinct (map slug (table_after t (insert_user_comic ps t c)))"
  by (auto simp: insert_user_comic_def table_after_def)

lemma insert_user_comics_slugs:
  "distinct (map slug t) \<Longrightarrow> distinct (map slug (insert_user_comics ps t cs))"
proof (induction cs arbitrary: t)
  case Nil
  then show ?case by simp
next
  case (Cons c cs)
  from Cons.prems have "distinct (map slug (table_after t (insert_user_comic ps t c)))"
    by (rule insert_user_comic_slugs)
  then show ?case
    using Cons.IH by simp
qed

text \<open>
  Claim C8. An insert into \<open>user_comics\<close> of a row whose slug is that of a stored comic
  is rejected and leaves the table as it was; when the row breaks no earlier constraint
  the error is the violation of the unique constraint on \<open>slug\<close>. So after any sequence
  of insert attempts on the empty table no two stored comics have the same slug.
\<close>

theorem duplicate_slug_rejected:
  "(slug c \<in> set (map slug t) \<longrightarrow>
      (\<exists>e. insert_user_comic ps t c = Inl e) \<and> table_after t (insert_user_comic ps t c) = t)
   \<and> (slug c \<in> set (map slug t) \<and> status c \<in> set [''draft'', ''published'', ''archived'']
        \<and> uc_language c \<in> set [''English'', ''Chinese'', ''Japanese'', ''Other'']
        \<and> uc_id c \<notin> set (map uc_id t) \<longrightarrow>
      insert_user_comic ps t c = Inl (UniqueViolation ''user_comics_slug_key''))
   \<and> distinct (map slug (insert_user_comics ps [] cs))"
proof (intro conjI impI)
  assume "slug c \<in> set (map slug t)"
  then show "\<exists>e. insert_user_comic ps t c = Inl e"
    by (simp add: insert_user_comic_def)
  then show "table_after t (insert_user_comic ps t c) = t"
    by (auto simp: table_after_def)
next
  assume "slug c \<in> set (map slug t) \<and> status c \<in> set [''draft'', ''published'', ''archived'']
        \<and> uc_language c \<in> set [''English'', ''Chinese'', ''Japanese'', ''Other'']
        \<and> uc_id c \<notin> set (map uc_id t)"
  then show "insert_user_comic ps t c = Inl (UniqueViolation ''user_comics_slug_key'')"
    by (simp add: insert_user_comic_def)
next
  show "distinct (map slug (insert_user_comics ps [] cs))"
    by (rule insert_user_comics_slugs) simp
qed

text \<open>
  The theorem at two stored comics and a third row with the slug of the first.
\<close>

theorem duplicate_slug_rejected_witness:
  "slug (ex_comic ''c3'' ''my-comic-123456'') \<in> set (map slug ex_comics)
   \<and> uc_id (ex_comic ''c3'' ''my-comic-123456'') \<notin> set (map uc_id ex_comics)
   \<and> insert_user_comic ex_profiles ex_comics (ex_comic ''c3'' ''my-comic-123456'')
        = Inl (UniqueViolation ''user_comics_slug_key'')
   \<and> table_after ex_comics
        (insert_user_comic ex_profiles ex_comics (ex_comic ''c3'' ''my-comic-123456'')) = ex_comics
   \<and> insert_user_comics ex_profiles [] (ex_comics @ [ex_comic ''c3'' ''my-comic-123456''])
        = ex_comics"
proof -
  have h: "slug (ex_comic ''c3'' ''my-comic-123456'') \<in> set (map slug ex_comics)"
    "status (ex_comic ''c3'' ''my-comic-123456'') \<in> set [''draft'', ''published'', ''archived'']"
    "uc_language (ex_comic ''c3'' ''my-comic-123456'')
       \<in> set [''English'', ''Chinese'', ''Japanese'', ''Other'']"
    "uc_id (ex_comic ''c3'' ''my-comic-123456'') \<notin> set (map uc_id ex_comics)"
    by (simp_all add: ex_comics_def ex_comic_def)
  have run: "insert_user_comics ex_profiles [] (ex_comics @ [ex_comic ''c3'' ''my-comic-123456''])
        = ex_comics"
    by (simp add: ex_comics_def ex_comic_def insert_user_comic_def table_after_def
          ex_profiles_def lit_def)
  from duplicate_slug_rejected [of "ex_comic ''c3'' ''my-comic-123456''" ex_comics ex_profiles "[]"] h run
  show ?thesis
    by (simp add: table_after_def)
qed


section \<open>The submission\<close>

lemma defined_prefix_map_Some [simp]: "defined_prefix (map Some fs) = fs"
  by (induction fs) simp_all

lemma upload_pages_prefix:
  "prefix (fst (upload_pages env uid cid i ps))
     (concat (map (\<lambda>(k, f). page_calls env uid cid k f) (enumerate (Suc i) (defined_prefix ps))))"
proof (induction ps arbitrary: i)
  case Nil
  then show ?case by simp
next
  case (Cons p ps)
  show ?case
  proof (cases p)
    case None
    then show ?thesis by simp
  next
    case (Some f)
    show ?thesis
      using Cons.IH [of "Suc i"] Some
      by (auto simp: page_calls_def split: api_result.splits prod.splits)
  qed
qed

lemma upload_pages_complete:
  "upload_pages env uid cid i ps = (es, None) \<Longrightarrow>
   es = concat (map (\<lambda>(k, f). page_calls env uid cid k f) (enumerate (Suc i) (defined_prefix ps)))"
proof (induction ps arbitrary: i es)
  case Nil
  then show ?case by simp
next
  case (Cons p ps)
  then show ?case
    by (cases p) (auto simp: page_calls_def split: api_result.splits prod.splits)
qed

lemma upload_pages_fail_at:
  "k < length fs \<Longrightarrow>
   (\<forall>m<k. is_ok (page_result env (i + m)) \<and> \<not> is_throw (row_result env (i + m))) \<Longrightarrow>
   \<not> is_ok (page_result env (i + k)) \<Longrightarrow>
   fst (upload_pages env uid cid i (map Some fs))
     = concat (map (\<lambda>(n, f). page_calls env uid cid n f) (enumerate (Suc i) (take k fs)))
       @ [UploadComicPage uid cid (Suc (i + k)) (fs ! k)]
   \<and> snd (upload_pages env uid cid i (map Some fs)) \<noteq> None"
proof (induction fs arbitrary: i k)
  case Nil
  then show ?case by simp
next
  case (Cons f fs)
  show ?case
  proof (cases k)
    case 0
    with Cons.prems show ?thesis
      by (auto simp: is_ok_def split: api_result.splits)
  next
    case (Suc k')
    from Cons.prems Suc have ok: "is_ok (page_result env i)" "\<not> is_throw (row_result env i)"
      by (metis add.right_neutral zero_less_Suc)+
    have "\<forall>m<k'. is_ok (page_result env (Suc i + m)) \<and> \<not> is_throw (row_result env (Suc i + m))"
      using Cons.prems(2) Suc by (metis Suc_less_eq add_Suc_shift)
    moreover have "\<not> is_ok (page_result env (Suc i + k'))"
      using Cons.prems(3) Suc by simp
    moreover have "k' < length fs" using Cons.prems(1) Suc by simp
    ultimately have IH: "fst (upload_pages env uid cid (Suc i) (map Some fs))
       = concat (map (\<lambda>(n, f). page_calls env uid cid n f) (enumerate (Suc (Suc i)) (take k' fs)))
         @ [UploadComicPage uid cid (Suc (Suc i + k')) (fs ! k')]
       \<and> snd (upload_pages env uid cid (Suc i) (map Some fs)) \<noteq> None"
      using Cons.IH by blast
    then show ?thesis
      using ok Suc
      by (auto simp: page_calls_def is_ok_def is_throw_def split: api_result.splits prod.splits)
  qed
qed

lemma take_page_calls:
  "k < length fs \<Longrightarrow>
   take (2 * k + 1) (concat (map (\<lambda>(n, f). page_calls env uid cid n f) (enumerate i fs)))
     = concat (map (\<lambda>(n, f). page_calls env uid cid n f) (enumerate i (take k fs)))
       @ [UploadComicPage uid cid (i + k) (fs ! k)]"
proof (induction fs arbitrary: i k)
  case Nil
  then show ?case by simp
next
  case (Cons f fs)
  show ?case
  proof (cases k)
    case 0
    then show ?thesis by (simp add: page_calls_def)
  next
    case (Suc k')
    with Cons.prems have "k' < length fs" by simp
    from Cons.IH [OF this, of "Suc i"] Suc show ?thesis
      by (simp add: page_calls_def)
  qed
qed

lemma submit_calls_prefix:
  "prefix (fst (submit_calls env uid s cover)) (submit_plan env uid s cover)"
  using upload_pages_prefix [of env uid "comicId s" 0 "comicPages s"]
  by (auto simp: submit_calls_def submit_plan_def Let_def split: api_result.splits prod.splits)

lemma submit_calls_complete:
  "submit_calls env uid s cover = (es, None) \<Longrightarrow> es = submit_plan env uid s cover"
  using upload_pages_complete [of env uid "comicId s" 0 "comicPages s"]
  by (auto simp: submit_calls_def submit_plan_def Let_def split: api_result.splits prod.splits)

lemma handleSubmit_prefix:
  assumes "w_user s = Some uid" and "coverImage s = Some cover"
  shows "prefix (snd (handleSubmit env s))
           (submit_plan env uid s cover @ [RedirectLater ''/dashboard/comics''])"
proof (cases "submittable s")
  case False
  then show ?thesis
    using assms by (auto simp: handleSubmit_def submittable_def)
next
  case True
  obtain es r where c: "submit_calls env uid s cover = (es, r)"
    by (cases "submit_calls env uid s cover")
  show ?thesis
  proof (cases r)
    case None
    with c have "es = submit_plan env uid s cover" by (simp add: submit_calls_complete)
    then show ?thesis
      using assms True c None by (simp add: handleSubmit_def submittable_def)
  next
    case (Some msg)
    have "prefix es (submit_plan env uid s cover)"
      using submit_calls_prefix [of env uid s cover] c by simp
    then have "prefix es (submit_plan env uid s cover @ [RedirectLater ''/dashboard/comics''])"
      by (rule prefix_prefix)
    then show ?thesis
      using assms True c Some by (simp add: handleSubmit_def submittable_def)
  qed
qed

lemma no_delete_in_plan:
  "DeleteUserComic a b \<notin> set (submit_plan env uid s cover @ [RedirectLater r])"
  by (auto simp: submit_plan_def page_calls_def)

lemma handleSubmit_all_ok:
  assumes "w_user s = Some uid" and "coverImage s = Some cover" and "submittable s"
    and "comicPages s = map Some files"
    and "is_ok (cover_result env)" and "is_ok (comic_result env)" and "pages_succeed env"
  shows "snd (handleSubmit env s) = submit_plan env uid s cover @ [RedirectLater ''/dashboard/comics'']"
    and "w_success (fst (handleSubmit env s)) = Some (lit ''Comic uploaded successfully!'')"
proof -
  have "upload_pages env uid (comicId s) 0 (comicPages s)
     = (concat (map (\<lambda>(k, f). page_calls env uid (comicId s) k f) (enumerate 1 files)), None)"
    using assms(4,7)
    by (simp add: upload_pages_all_ok)
  then have "submit_calls env uid s cover = (submit_plan env uid s cover, None)"
    using assms(4,5,6)
    by (auto simp: submit_calls_def submit_plan_def Let_def is_ok_def split: api_result.splits)
  then show "snd (handleSubmit env s) = submit_plan env uid s cover @ [RedirectLater ''/dashboard/comics'']"
    and "w_success (fst (handleSubmit env s)) = Some (lit ''Comic uploaded successfully!'')"
    using assms(1,2,3) by (simp_all add: handleSubmit_def submittable_def)
qed

lemma handleSubmit_cover_fails:
  assumes "w_user s = Some uid" and "coverImage s = Some cover" and "submittable s"
    and "\<not> is_ok (cover_result env)"
  shows "snd (handleSubmit env s) = take 1 (submit_plan env uid s cover)
       \<and> w_error (fst (handleSubmit env s)) \<noteq> None"
  using assms
  by (auto simp: handleSubmit_def submittable_def submit_calls_def submit_plan_def is_ok_def
        split: api_result.splits)

lemma handleSubmit_comic_fails:
  assumes "w_user s = Some uid" and "coverImage s = Some cover" and "submittable s"
    and "is_ok (cover_result env)" and "\<not> is_ok (comic_result env)"
  shows "snd (handleSubmit env s) = take 2 (submit_plan env uid s cover)
       \<and> w_error (fst (handleSubmit env s)) \<noteq> None"
  using assms
  by (auto simp: handleSubmit_def submittable_def submit_calls_def submit_plan_def is_ok_def Let_def
        split: api_result.splits)

lemma take_after_two:
  "take (2 * k + 3) (a # b # xs) = a # b # take (2 * k + 1) xs"
proof -
  have "2 * k + 3 = Suc (Suc (2 * k + 1))" by simp
  then show ?thesis by (simp only: take_Suc_Cons)
qed

lemma handleSubmit_page_fails:
  assumes "w_user s = Some uid" and "coverImage s = Some cover" and "submittable s"
    and "comicPages s = map Some files"
    and "is_ok (cover_result env)" and "is_ok (comic_result env)"
    and "k < length files"
    and "\<forall>m<k. is_ok (page_result env m) \<and> \<not> is_throw (row_result env m)"
    and "\<not> is_ok (page_result env k)"
  shows "snd (handleSubmit env s) = take (2 * k + 3) (submit_plan env uid s cover)
       \<and> w_error (fst (handleSubmit env s)) \<noteq> None"
proof -
  let ?calls = "\<lambda>fs. concat (map (\<lambda>(n, f). page_calls env uid (comicId s) n f) (enumerate 1 fs))"
  have f: "fst (upload_pages env uid (comicId s) 0 (map Some files))
      = ?calls (take k files) @ [UploadComicPage uid (comicId s) (Suc k) (files ! k)]
     \<and> snd (upload_pages env uid (comicId s) 0 (map Some files)) \<noteq> None"
    using upload_pages_fail_at [of k files env 0 uid "comicId s"] assms(7,8,9) by simp
  have t: "take (2 * k + 1) (?calls files)
      = ?calls (take k files) @ [UploadComicPage uid (comicId s) (Suc k) (files ! k)]"
    using take_page_calls [OF assms(7), of env uid "comicId s" 1] by simp
  obtain es r where u: "upload_pages env uid (comicId s) 0 (map Some files) = (es, r)"
    by (cases "upload_pages env uid (comicId s) 0 (map Some files)")
  with f t have es: "es = take (2 * k + 1) (?calls files)" and r: "r \<noteq> None"
    by simp_all
  have "take (2 * k + 3) (submit_plan env uid s cover)
      = UploadComicCover uid (comicId s) cover
        # CreateUserComic
            \<lparr> uc_user_id = uid, uc_title = title s, slug = make_slug env (title s),
              uc_description = Some (description s), uc_artist = artist s,
              cover_image_url = (case cover_result env of Ok u \<Rightarrow> u | _ \<Rightarrow> []),
              uc_language = language s, page_count = int (length (comicPages s)),
              status = ''published'' \<rparr>
        # take (2 * k + 1) (?calls files)"
    using assms(4) by (simp add: submit_plan_def take_after_two del: One_nat_def)
  then show ?thesis
    using assms(1,2,3,4,5,6) u es r
    by (auto simp: handleSubmit_def submittable_def submit_calls_def is_ok_def Let_def
          split: api_result.splits)
qed


text \<open>
  Claim C5. For a submission by a signed-in user with a cover selected, the calls made
  are an initial part of the planned sequence (cover upload, creation of the comic, then
  for \<open>k = 1, ..., N\<close> the upload of page \<open>k\<close> and the insert of its row with
  \<open>page_number = k\<close>, then the redirect), and no call removes anything. When every
  call succeeds the whole sequence is made. When the cover upload, the creation of the
  comic, or the upload of page \<open>k + 1\<close> is the first call to fail, exactly the calls up
  to and including that one have been made, an error message is set, and nothing made
  before is undone.
\<close>

theorem submit_order:
  assumes "w_user s = Some uid" and "coverImage s = Some cover"
  shows "prefix (snd (handleSubmit env s))
           (submit_plan env uid s cover @ [RedirectLater ''/dashboard/comics''])
       \<and> (\<forall>a b. DeleteUserComic a b \<notin> set (snd (handleSubmit env s)))
       \<and> (submittable s \<and> comicPages s = map Some files \<and> is_ok (cover_result env)
            \<and> is_ok (comic_result env) \<and> pages_succeed env \<longrightarrow>
          snd (handleSubmit env s)
            = submit_plan env uid s cover @ [RedirectLater ''/dashboard/comics''])
       \<and> (submittable s \<and> \<not> is_ok (cover_result env) \<longrightarrow>
          snd (handleSubmit env s) = take 1 (submit_plan env uid s cover)
          \<and> w_error (fst (handleSubmit env s)) \<noteq> None)
       \<and> (submittable s \<and> is_ok (cover_result env) \<and> \<not> is_ok (comic_result env) \<longrightarrow>
          snd (handleSubmit env s) = take 2 (submit_plan env uid s cover)
          \<and> w_error (fst (handleSubmit env s)) \<noteq> None)
       \<and> (submittable s \<and> comicPages s = map Some files \<and> is_ok (cover_result env)
            \<and> is_ok (comic_result env) \<and> k < length files
            \<and> (\<forall>m<k. is_ok (page_result env m) \<and> \<not> is_throw (row_result env m))
            \<and> \<not> is_ok (page_result env k) \<longrightarrow>
          snd (handleSubmit env s) = take (2 * k + 3) (submit_plan env uid s cover)
          \<and> w_error (fst (handleSubmit env s)) \<noteq> None)"
proof (intro conjI allI)
  show p: "prefix (snd (handleSubmit env s))
           (submit_plan env uid s cover @ [RedirectLater ''/dashboard/comics''])"
    using assms by (rule handleSubmit_prefix)
  fix a b
  show "DeleteUserComic a b \<notin> set (snd (handleSubmit env s))"
    using set_mono_prefix [OF p] no_delete_in_plan [of a b env uid s cover] by blast
next
  show "submittable s \<and> comicPages s = map Some files \<and> is_ok (cover_result env)
            \<and> is_ok (comic_result env) \<and> pages_succeed env \<longrightarrow>
          snd (handleSubmit env s)
            = submit_plan env uid s cover @ [RedirectLater ''/dashboard/comics'']"
    using handleSubmit_all_ok(1) [OF assms] by blast
next
  show "submittable s \<and> \<not> is_ok (cover_result env) \<longrightarrow>
          snd (handleSubmit env s) = take 1 (submit_plan env uid s cover)
          \<and> w_error (fst (handleSubmit env s)) \<noteq> None"
    using handleSubmit_cover_fails [OF assms] by blast
next
  show "submittable s \<and> is_ok (cover_result env) \<and> \<not> is_ok (comic_result env) \<longrightarrow>
          snd (handleSubmit env s) = take 2 (submit_plan env uid s cover)
          \<and> w_error (fst (handleSubmit env s)) \<noteq> None"
    using handleSubmit_comic_fails [OF assms] by blast
next
  show "submittable s \<and> comicPages s = map Some files \<and> is_ok (cover_result env)
            \<and> is_ok (comic_result env) \<and> k < length files
            \<and> (\<forall>m<k. is_ok (page_result env m) \<and> \<not> is_throw (row_result env m))
            \<and> \<not> is_ok (page_result env k) \<longrightarrow>
          snd (handleSubmit env s) = take (2 * k + 3) (submit_plan env uid s cover)
          \<and> w_error (fst (handleSubmit env s)) \<noteq> None"
    using handleSubmit_page_fails [OF assms] by blast
qed

text \<open>The planned sequences of the example wizard in two environments.\<close>

lemma ex_slug: "make_slug ex_env (lit ''My Comic'') = lit ''my-comic-123456''"
  by (simp add: make_slug_def ex_env_def ascii_lower_def lit_def is_word_char_def
        is_js_whitespace_def Let_def show_nat.simps)

lemma ex_plan:
  "submit_plan ex_env ''u1'' ex_review (ex_file ''cover'')
     = [UploadComicCover ''u1'' ''c1'' (ex_file ''cover''),
        CreateUserComic
          \<lparr> uc_user_id = ''u1'', uc_title = lit ''My Comic'', slug = lit ''my-comic-123456'',
            uc_description = Some [], uc_artist = lit ''Me'', cover_image_url = ''cover-url'',
            uc_language = ''English'', page_count = 3, status = ''published'' \<rparr>,
        UploadComicPage ''u1'' ''c1'' 1 (ex_file ''p1''), AddComicPage ''c1'' 1 ''page-url'',
        UploadComicPage ''u1'' ''c1'' 2 (ex_file ''p2''), AddComicPage ''c1'' 2 ''page-url'',
        UploadComicPage ''u1'' ''c1'' 3 (ex_file ''p3''), AddComicPage ''c1'' 3 ''page-url'']"
  unfolding submit_plan_def ex_slug [symmetric]
  by (simp add: ex_review_def ex_wizard_def initial_wizard_def page_calls_def ex_env_def)

lemma ex_calls2:
  "concat (map (\<lambda>(k, f). page_calls ex_env_page2 ''u1'' ''c1'' k f)
      (enumerate 1 [ex_file ''p1'', ex_file ''p2'', ex_file ''p3'']))
   = [UploadComicPage ''u1'' ''c1'' 1 (ex_file ''p1''), AddComicPage ''c1'' 1 ''page-url'',
        UploadComicPage ''u1'' ''c1'' 2 (ex_file ''p2''), AddComicPage ''c1'' 2 [],
        UploadComicPage ''u1'' ''c1'' 3 (ex_file ''p3''), AddComicPage ''c1'' 3 ''page-url'']"
  by (simp add: page_calls_def ex_env_page2_def)

lemma slug2: "make_slug ex_env_page2 = make_slug ex_env"
proof -
  have "now ex_env_page2 = now ex_env" "toLowerCase ex_env_page2 = toLowerCase ex_env"
    by (simp_all add: ex_env_page2_def)
  then show ?thesis
    by (intro ext) (simp only: make_slug_def)
qed

lemma ex_plan2: "submit_plan ex_env_page2 ''u1'' ex_review (ex_file ''cover'')
     = [UploadComicCover ''u1'' ''c1'' (ex_file ''cover''),
        CreateUserComic
          \<lparr> uc_user_id = ''u1'', uc_title = lit ''My Comic'', slug = lit ''my-comic-123456'',
            uc_description = Some [], uc_artist = lit ''Me'', cover_image_url = ''cover-url'',
            uc_language = ''English'', page_count = 3, status = ''published'' \<rparr>,
        UploadComicPage ''u1'' ''c1'' 1 (ex_file ''p1''), AddComicPage ''c1'' 1 ''page-url'',
        UploadComicPage ''u1'' ''c1'' 2 (ex_file ''p2''), AddComicPage ''c1'' 2 [],
        UploadComicPage ''u1'' ''c1'' 3 (ex_file ''p3''), AddComicPage ''c1'' 3 ''page-url'']"
proof -
  have "comicId ex_review = ''c1''" "title ex_review = lit ''My Comic''"
    "description ex_review = []" "artist ex_review = lit ''Me''" "language ex_review = ''English''"
    "comicPages ex_review = map Some [ex_file ''p1'', ex_file ''p2'', ex_file ''p3'']"
    "cover_result ex_env_page2 = Ok ''cover-url''"
    by (simp_all add: ex_review_def ex_wizard_def initial_wizard_def ex_env_page2_def ex_env_def)
  then show ?thesis
    unfolding submit_plan_def slug2
    by (simp add: ex_slug page_calls_def ex_env_page2_def)
qed

text \<open>
  The theorem at the example wizard: all nine calls and the redirect when everything
  succeeds; the first five calls when the upload of page 2 fails.
\<close>

theorem submit_order_witness:
  "w_user ex_review = Some ''u1'' \<and> coverImage ex_review = Some (ex_file ''cover'')
   \<and> submittable ex_review \<and> pages_succeed ex_env
   \<and> snd (handleSubmit ex_env ex_review)
       = [UploadComicCover ''u1'' ''c1'' (ex_file ''cover''),
          CreateUserComic
            \<lparr> uc_user_id = ''u1'', uc_title = lit ''My Comic'', slug = lit ''my-comic-123456'',
              uc_description = Some [], uc_artist = lit ''Me'', cover_image_url = ''cover-url'',
              uc_language = ''English'', page_count = 3, status = ''published'' \<rparr>,
          UploadComicPage ''u1'' ''c1'' 1 (ex_file ''p1''), AddComicPage ''c1'' 1 ''page-url'',
          UploadComicPage ''u1'' ''c1'' 2 (ex_file ''p2''), AddComicPage ''c1'' 2 ''page-url'',
          UploadComicPage ''u1'' ''c1'' 3 (ex_file ''p3''), AddComicPage ''c1'' 3 ''page-url'',
          RedirectLater ''/dashboard/comics'']
   \<and> \<not> is_ok (page_result ex_env_page2 1)
   \<and> snd (handleSubmit ex_env_page2 ex_review)
       = [UploadComicCover ''u1'' ''c1'' (ex_file ''cover''),
          CreateUserComic
            \<lparr> uc_user_id = ''u1'', uc_title = lit ''My Comic'', slug = lit ''my-comic-123456'',
              uc_description = Some [], uc_artist = lit ''Me'', cover_image_url = ''cover-url'',
              uc_language = ''English'', page_count = 3, status = ''published'' \<rparr>,
          UploadComicPage ''u1'' ''c1'' 1 (ex_file ''p1''), AddComicPage ''c1'' 1 ''page-url'',
          UploadComicPage ''u1'' ''c1'' 2 (ex_file ''p2'')]
   \<and> w_error (fst (handleSubmit ex_env_page2 ex_review)) \<noteq> None"
proof -
  let ?files = "[ex_file ''p1'', ex_file ''p2'', ex_file ''p3'']"
  have u: "w_user ex_review = Some ''u1''" and c: "coverImage ex_review = Some (ex_file ''cover'')"
    and p: "comicPages ex_review = map Some ?files"
    by (simp_all add: ex_review_def ex_wizard_def initial_wizard_def)
  have t: "js_trim (lit ''My Comic'') \<noteq> []" "js_trim (lit ''Me'') \<noteq> []"
    by (simp_all add: js_trim_def lit_def is_js_whitespace_def)
  have v: "submittable ex_review"
    using t by (simp add: submittable_def ex_review_def ex_wizard_def initial_wizard_def)
  have ok: "is_ok (cover_result ex_env)" "is_ok (comic_result ex_env)" "pages_succeed ex_env"
    by (simp_all add: ex_env_def is_ok_def is_throw_def pages_succeed_def)
  have ok2: "is_ok (cover_result ex_env_page2)" "is_ok (comic_result ex_env_page2)"
    "(1::nat) < length ?files"
    "\<forall>m<1. is_ok (page_result ex_env_page2 m) \<and> \<not> is_throw (row_result ex_env_page2 m)"
    "\<not> is_ok (page_result ex_env_page2 1)"
    by (simp_all add: ex_env_page2_def ex_env_def is_ok_def is_throw_def)
  note plan2 = ex_plan2
  have five: "2 * 1 + 3 = Suc (Suc (Suc (Suc (Suc 0))))" by simp
  from submit_order [OF u c, of ex_env ?files 0] v p ok
  have a: "snd (handleSubmit ex_env ex_review)
      = submit_plan ex_env ''u1'' ex_review (ex_file ''cover'') @ [RedirectLater ''/dashboard/comics'']"
    by blast
  from submit_order [OF u c, of ex_env_page2 ?files 1] v p ok2
  have b: "snd (handleSubmit ex_env_page2 ex_review)
      = take (2 * 1 + 3) (submit_plan ex_env_page2 ''u1'' ex_review (ex_file ''cover''))
     \<and> w_error (fst (handleSubmit ex_env_page2 ex_review)) \<noteq> None"
    by blast
  show ?thesis
    using a b u c v ok(3) ok2(5)
    unfolding plan2 ex_plan five
    by simp
qed


section \<open>Persisting the order\<close>

lemma persist_order_calls:
  "\<forall>k. \<not> is_throw (res k) \<Longrightarrow> persist_order upd res k fs db = (db', es, thrown) \<Longrightarrow>
   es = map (\<lambda>f. UpdateBookmarkFolder (fid f) (display_order f)) fs \<and> \<not> thrown"
proof (induction fs arbitrary: k db db' es thrown)
  case Nil
  then show ?case by simp
next
  case (Cons f fs)
  from Cons.prems(1) have n: "\<not> is_throw (res k)" by simp
  show ?case
  proof (cases "res k")
    case (Ok u)
    obtain d e t where r: "persist_order upd res (Suc k) fs (upd (fid f) (display_order f) db) = (d, e, t)"
      by (cases "persist_order upd res (Suc k) fs (upd (fid f) (display_order f) db)")
    from Cons.IH [OF Cons.prems(1) r] Cons.prems(2) Ok r show ?thesis by simp
  next
    case Error
    obtain d e t where r: "persist_order upd res (Suc k) fs db = (d, e, t)"
      by (cases "persist_order upd res (Suc k) fs db")
    from Cons.IH [OF Cons.prems(1) r] Cons.prems(2) Error r show ?thesis by simp
  next
    case (Throw m)
    with n show ?thesis by (simp add: is_throw_def)
  qed
qed

lemma persist_order_no_throw:
  "\<forall>k. \<not> is_throw (res k) \<Longrightarrow>
   snd (persist_order upd res k fs db)
     = (map (\<lambda>f. UpdateBookmarkFolder (fid f) (display_order f)) fs, False)"
  using persist_order_calls [of res upd k fs db]
  by (cases "persist_order upd res k fs db") simp

lemma length_updatedFolders:
  "i < length fs \<Longrightarrow> length (updatedFolders blank i j fs) = length fs"
  by (simp add: updatedFolders_in_range length_splice_remove_Suc0)

lemma display_order_updatedFolders:
  "k < length (updatedFolders blank i j fs) \<Longrightarrow>
   display_order (updatedFolders blank i j fs ! k) = int k"
  by (simp add: updatedFolders_def Let_def nth_enumerate_eq)

lemma reorder_loop_statements:
  "reorder_loop cast c els i rows = (ws, Inr rows') \<Longrightarrow>
   map (\<lambda>(p, n). (Some p, n)) ws = map (\<lambda>(k, el). (cast el, int k + 1)) (enumerate i els)"
proof (induction els arbitrary: i rows ws)
  case Nil
  then show ?case by simp
next
  case (Cons el els)
  then show ?case
    by (auto simp: Let_def split: option.splits sum.splits prod.splits)
qed

text \<open>
  In a folder reorder in which no call of \<open>updateBookmarkFolder\<close> throws, the loop makes
  exactly one call per folder of the resulting list, in order, \<open>N\<close> calls for \<open>N\<close>
  folders, the call at loop index \<open>k\<close> writing \<open>display_order = k\<close> whatever the
  folder's position was before.
\<close>

lemma folder_reorder_persists_every_position:
  assumes "dragItem s = Some i" and "dragOverItem s = Some j" and "i < length (folders s)"
    and "\<forall>k. \<not> is_throw (res k)"
  shows "snd (snd (handleDragEnd blank upd res s db))
           = map (\<lambda>f. UpdateBookmarkFolder (fid f) (display_order f))
               (folders (fst (handleDragEnd blank upd res s db)))
       \<and> length (snd (snd (handleDragEnd blank upd res s db))) = length (folders s)
       \<and> (\<forall>k < length (folders s).
            snd (snd (handleDragEnd blank upd res s db)) ! k
              = UpdateBookmarkFolder (fid (folders (fst (handleDragEnd blank upd res s db)) ! k)) (int k))"
proof -
  let ?fs = "updatedFolders blank i j (folders s)"
  let ?U = "\<lambda>f. UpdateBookmarkFolder (fid f) (display_order f)"
  have f: "folders (fst (handleDragEnd blank upd res s db)) = ?fs"
    using assms(1,2) by (rule handleDragEnd_folders)
  have "snd (persist_order upd res 0 ?fs db) = (map ?U ?fs, False)"
    using assms(4) by (rule persist_order_no_throw)
  then have e: "snd (snd (handleDragEnd blank upd res s db)) = map ?U ?fs"
    using assms(1,2) by (auto simp: handleDragEnd_def Let_def split: prod.splits)
  have l: "length ?fs = length (folders s)"
    using assms(3) by (rule length_updatedFolders)
  have n: "\<forall>k < length (folders s). map ?U ?fs ! k = UpdateBookmarkFolder (fid (?fs ! k)) (int k)"
    using l by (simp add: display_order_updatedFolders)
  show ?thesis
    unfolding f e using l n by simp
qed

text \<open>
  Where nothing changes: the folder \<open>b\<close> at index 1 is dropped onto itself, and all three
  positions are written again.
\<close>

lemma folder_positions_written_again:
  "folders (fst (handleDragEnd (ex_folder [] False 0) write_display_order (\<lambda>k. Ok ())
         ex_page_same (folders ex_page))) = folders ex_page
   \<and> snd (snd (handleDragEnd (ex_folder [] False 0) write_display_order (\<lambda>k. Ok ())
         ex_page_same (folders ex_page)))
       = [UpdateBookmarkFolder ''a'' 0, UpdateBookmarkFolder ''b'' 1, UpdateBookmarkFolder ''c'' 2]"
  by (simp add: handleDragEnd_def ex_page_same_def ex_page_def updatedFolders_def js_index_def
        splice_insert_def splice_remove_def enumerate_eq_zip ex_folder_def Let_def)

text \<open>
  A run of \<open>reorder_comic_pages\<close> that raises nothing has run one \<open>UPDATE\<close> per entry
  of the order, and, the entries being distinct, the row of the page that entry \<open>k\<close>
  names, when it is a page of the comic, has \<open>page_number = k + 1\<close> at the end.
\<close>

lemma update_page_number_Inr:
  "update_page_number c p n rows = Inr rows' \<Longrightarrow>
   rows' = map (\<lambda>r. if pg_id r = p \<and> pg_comic_id r = c then r\<lparr>page_number := n\<rparr> else r) rows"
  by (simp add: update_page_number_def Let_def split: if_splits)

lemma reorder_loop_keeps:
  "reorder_loop cast c els i rows = (ws, Inr rows') \<Longrightarrow>
   length rows' = length rows
   \<and> (\<forall>n<length rows. pg_id (rows' ! n) = pg_id (rows ! n)
                       \<and> pg_comic_id (rows' ! n) = pg_comic_id (rows ! n))"
proof (induction els arbitrary: i rows ws)
  case Nil
  then show ?case by simp
next
  case (Cons el els)
  from Cons.prems obtain p rows1 ws1 where
    c: "cast el = Some p" and u: "update_page_number c p (int i + 1) rows = Inr rows1"
    and r: "reorder_loop cast c els (Suc i) rows1 = (ws1, Inr rows')"
    by (auto simp: Let_def split: option.splits sum.splits prod.splits)
  from update_page_number_Inr [OF u] have
    "length rows1 = length rows"
    "\<forall>n<length rows. pg_id (rows1 ! n) = pg_id (rows ! n)
                     \<and> pg_comic_id (rows1 ! n) = pg_comic_id (rows ! n)"
    by simp_all
  with Cons.IH [OF r] show ?case by simp
qed

lemma reorder_loop_untouched:
  "reorder_loop cast c els i rows = (ws, Inr rows') \<Longrightarrow> n < length rows \<Longrightarrow>
   \<forall>el\<in>set els. cast el \<noteq> Some (pg_id (rows ! n)) \<Longrightarrow> rows' ! n = rows ! n"
proof (induction els arbitrary: i rows ws)
  case Nil
  then show ?case by simp
next
  case (Cons el els)
  from Cons.prems(1) obtain p rows1 ws1 where
    c: "cast el = Some p" and u: "update_page_number c p (int i + 1) rows = Inr rows1"
    and r: "reorder_loop cast c els (Suc i) rows1 = (ws1, Inr rows')"
    by (auto simp: Let_def split: option.splits sum.splits prod.splits)
  from Cons.prems(3) c have "p \<noteq> pg_id (rows ! n)" by auto
  with update_page_number_Inr [OF u] Cons.prems(2) have same: "rows1 ! n = rows ! n"
    and len: "n < length rows1" by simp_all
  have "\<forall>el\<in>set els. cast el \<noteq> Some (pg_id (rows1 ! n))"
    using Cons.prems(3) same by simp
  from Cons.IH [OF r len this] same show ?case by simp
qed

lemma reorder_loop_rows:
  "reorder_loop cast c els i rows = (ws, Inr rows') \<Longrightarrow> distinct (map cast els) \<Longrightarrow>
   k < length els \<Longrightarrow> n < length rows \<Longrightarrow>
   cast (els ! k) = Some (pg_id (rows ! n)) \<Longrightarrow> pg_comic_id (rows ! n) = c \<Longrightarrow>
   page_number (rows' ! n) = int (i + k) + 1"
proof (induction els arbitrary: i rows ws k)
  case Nil
  then show ?case by simp
next
  case (Cons el els)
  from Cons.prems(1) obtain p rows1 ws1 where
    c: "cast el = Some p" and u: "update_page_number c p (int i + 1) rows = Inr rows1"
    and r: "reorder_loop cast c els (Suc i) rows1 = (ws1, Inr rows')"
    by (auto simp: Let_def split: option.splits sum.splits prod.splits)
  note rows1 = update_page_number_Inr [OF u]
  have len: "n < length rows1" using rows1 Cons.prems(4) by simp
  have ids: "pg_id (rows1 ! n) = pg_id (rows ! n)" "pg_comic_id (rows1 ! n) = c"
    using rows1 Cons.prems(4,6) by simp_all
  show ?case
  proof (cases k)
    case 0
    with Cons.prems(5) c have p: "p = pg_id (rows ! n)" by simp
    then have w: "page_number (rows1 ! n) = int i + 1"
      using rows1 Cons.prems(4,6) by simp
    have "\<forall>e\<in>set els. cast e \<noteq> Some (pg_id (rows1 ! n))"
      using Cons.prems(2) c p ids(1) by (auto simp: image_iff)
    from reorder_loop_untouched [OF r len this] w 0 show ?thesis by simp
  next
    case (Suc k')
    have "distinct (map cast els)" using Cons.prems(2) by simp
    moreover have "k' < length els" using Cons.prems(3) Suc by simp
    moreover have "cast (els ! k') = Some (pg_id (rows1 ! n))"
      using Cons.prems(5) Suc ids(1) by simp
    ultimately have "page_number (rows' ! n) = int (Suc i + k') + 1"
      using Cons.IH [OF r _ _ len _ ids(2)] by blast
    with Suc show ?thesis by simp
  qed
qed

lemma reorder_comic_pages_rows:
  assumes "reorder_comic_pages cast comic_uuid page_order rows = (ws, Inr rows')"
    and "distinct (map cast page_order)"
    and "k < length page_order" and "n < length rows"
    and "cast (page_order ! k) = Some (pg_id (rows ! n))" and "pg_comic_id (rows ! n) = comic_uuid"
  shows "page_number (rows' ! n) = int k + 1 \<and> pg_id (rows' ! n) = pg_id (rows ! n)
       \<and> length ws = length page_order"
proof -
  from assms(1) have l: "reorder_loop cast comic_uuid page_order 0 rows = (ws, Inr rows')"
    by (simp add: reorder_comic_pages_def)
  have "length (map (\<lambda>(p, n). (Some p, n)) ws)
      = length (map (\<lambda>(k, el). (cast el, int k + 1)) (enumerate 0 page_order))"
    using reorder_loop_statements [OF l] by simp
  then have "length ws = length page_order" by simp
  then show ?thesis
    using reorder_loop_rows [OF l assms(2-6)] reorder_loop_keeps [OF l] assms(4) by simp
qed

text \<open>
  An \<open>UPDATE\<close> of \<open>reorder_comic_pages\<close> that gives a page a number another page of
  the comic still has violates \<open>UNIQUE (comic_id, page_number)\<close>, and the procedure ends
  there: so it does whenever the first entry of the order is a page of the comic other
  than the one numbered 1.
\<close>

lemma update_page_number_taken:
  assumes "r \<in> set rows" and "pg_id r = page_id" and "pg_comic_id r = comic_uuid"
    and "q \<in> set rows" and "pg_comic_id q = comic_uuid" and "pg_id q \<noteq> page_id"
    and "page_number q = n"
  shows "update_page_number comic_uuid page_id n rows
           = Inl (UniqueViolation ''comic_pages_comic_id_page_number_key'')"
proof -
  define w where "w = (\<lambda>r::comic_page. if pg_id r = page_id \<and> pg_comic_id r = comic_uuid
                             then r\<lparr>page_number := n\<rparr> else r)"
  define key where "key = (\<lambda>r::comic_page. (pg_comic_id r, page_number r))"
  have m: "w r \<in> set (map w rows)" "w q \<in> set (map w rows)"
    using assms(1,4) by simp_all
  have "pg_id (w r) = page_id" "pg_id (w q) \<noteq> page_id"
    using assms(2,3,6) by (simp_all add: w_def)
  then have d: "w r \<noteq> w q" by auto
  have k: "key (w r) = key (w q)"
    using assms(2,3,5,6,7) by (simp add: w_def key_def)
  have "\<not> inj_on key (set (map w rows))"
  proof
    assume "inj_on key (set (map w rows))"
    from inj_onD [OF this k m] d show False by simp
  qed
  then have "\<not> distinct (map key (map w rows))"
    using distinct_map [of key "map w rows"] by blast
  then show ?thesis
    unfolding update_page_number_def Let_def w_def key_def by simp
qed

lemma reorder_first_entry_raises:
  assumes "cast el = Some page_id"
    and "r \<in> set rows" and "pg_id r = page_id" and "pg_comic_id r = comic_uuid"
    and "q \<in> set rows" and "pg_comic_id q = comic_uuid" and "pg_id q \<noteq> page_id"
    and "page_number q = 1"
  shows "reorder_comic_pages cast comic_uuid (el # els) rows
           = ([(page_id, 1)], Inl (UniqueViolation ''comic_pages_comic_id_page_number_key''))"
  using update_page_number_taken [OF assms(2-8)] assms(1)
  by (simp add: reorder_comic_pages_def)

text \<open>
  Claim C6, at two stored pages of a comic, numbered 1 and 2, and the order that swaps
  them: the first \<open>UPDATE\<close> of \<open>reorder_comic_pages\<close>, which gives \<open>p2\<close> the number 1 that
  \<open>p1\<close> still has, raises the unique violation; the procedure ends there, no statement
  is run for \<open>p1\<close>, and the table keeps the page numbers it had.
\<close>

theorem reorder_comic_pages_swap_raises:
  "map (\<lambda>r. (pg_id r, pg_comic_id r, page_number r)) ex_rows
     = [(''p1'', ''c1'', 1), (''p2'', ''c1'', 2)]
   \<and> reorder_comic_pages Some ''c1'' swapped_order ex_rows
       = ([(''p2'', 1)], Inl (UniqueViolation ''comic_pages_comic_id_page_number_key''))
   \<and> table_after ex_rows (snd (reorder_comic_pages Some ''c1'' swapped_order ex_rows)) = ex_rows"
  by (simp add: reorder_comic_pages_def update_page_number_def ex_rows_def swapped_order_def
        table_after_def Let_def)

text \<open>
  When the call at loop index \<open>k\<close> throws after the calls before it have succeeded, the
  writes of the folders before \<open>k\<close> are in the store, no call is made for the folders
  after \<open>k\<close>, the error message is set and a reload is started.
\<close>

lemma persist_order_throw_at:
  "k < length fs \<Longrightarrow> (\<forall>m<k. is_ok (res (i + m))) \<Longrightarrow> is_throw (res (i + k)) \<Longrightarrow>
   persist_order upd res i fs db
     = (fold (\<lambda>f. upd (fid f) (display_order f)) (take k fs) db,
        map (\<lambda>f. UpdateBookmarkFolder (fid f) (display_order f)) (take (Suc k) fs),
        True)"
proof (induction fs arbitrary: i k db)
  case Nil
  then show ?case by simp
next
  case (Cons f fs)
  show ?case
  proof (cases k)
    case 0
    with Cons.prems show ?thesis
      by (auto simp: is_throw_def split: api_result.splits)
  next
    case (Suc k')
    from Cons.prems Suc have ok: "is_ok (res i)"
      by (metis add.right_neutral zero_less_Suc)
    have "\<forall>m<k'. is_ok (res (Suc i + m))"
      using Cons.prems(2) Suc by (metis Suc_less_eq add_Suc_shift)
    moreover have "is_throw (res (Suc i + k'))"
      using Cons.prems(3) Suc by simp
    moreover have "k' < length fs" using Cons.prems(1) Suc by simp
    ultimately have "persist_order upd res (Suc i) fs (upd (fid f) (display_order f) db)
       = (fold (\<lambda>f. upd (fid f) (display_order f)) (take k' fs) (upd (fid f) (display_order f) db),
          map (\<lambda>f. UpdateBookmarkFolder (fid f) (display_order f)) (take (Suc k') fs),
          True)"
      using Cons.IH by blast
    then show ?thesis
      using ok Suc by (auto simp: is_ok_def split: api_result.splits)
  qed
qed

lemma handleDragEnd_throw_at:
  assumes "dragItem s = Some i" and "dragOverItem s = Some j"
    and "k < length (updatedFolders blank i j (folders s))"
    and "\<forall>m<k. is_ok (res m)" and "is_throw (res k)"
  shows "handleDragEnd blank upd res s db
     = (s\<lparr>folders := updatedFolders blank i j (folders s), dragItem := None, dragOverItem := None,
           error := Some (lit ''Failed to update folder order. Please try again.'')\<rparr>,
        fold (\<lambda>f. upd (fid f) (display_order f)) (take k (updatedFolders blank i j (folders s))) db,
        map (\<lambda>f. UpdateBookmarkFolder (fid f) (display_order f))
          (take (Suc k) (updatedFolders blank i j (folders s))) @ [FetchBookmarkData])"
  using persist_order_throw_at [of k "updatedFolders blank i j (folders s)" res 0 upd db] assms
  by (simp add: handleDragEnd_def Let_def)

text \<open>
  Claim C7, at a drag of folder \<open>a\<close> from index 0 to index 2 in which the first update
  call resolves with its \<open>error\<close> set, the way the data-access layer reports a failed
  write (the page's other handlers test that field and throw): the loop looks at no
  result, so the calls for the folders at loop indices 1 and 2 are made as well, no error
  message is set, and the store is left with \<open>b\<close> and \<open>c\<close> both at position 1.
\<close>

theorem update_error_is_ignored:
  "first_update_fails 0 = Error
   \<and> snd (snd (handleDragEnd (ex_folder [] False 0) write_display_order first_update_fails
         ex_page (folders ex_page)))
       = [UpdateBookmarkFolder ''b'' 0, UpdateBookmarkFolder ''c'' 1, UpdateBookmarkFolder ''a'' 2]
   \<and> error (fst (handleDragEnd (ex_folder [] False 0) write_display_order first_update_fails
         ex_page (folders ex_page))) = None
   \<and> map (\<lambda>r. (fid r, display_order r))
        (fst (snd (handleDragEnd (ex_folder [] False 0) write_display_order first_update_fails
           ex_page (folders ex_page))))
       = [(''a'', 2), (''b'', 1), (''c'', 1)]"
  by (simp add: handleDragEnd_def ex_page_def updatedFolders_def js_index_def
        splice_insert_def splice_remove_def enumerate_eq_zip ex_folder_def Let_def
        first_update_fails_def write_display_order_def)


section \<open>Pages and their previews\<close>

lemma aligned_length: "aligned s \<Longrightarrow> length (pagePreviewUrls s) = length (comicPages s)"
  by (simp add: aligned_def)

lemma map_move_entry:
  "move_entry i j (map (map_option g) xs) = map (map_option g) (move_entry i j xs)"
  by (simp add: move_entry_def js_index_def map_splice_insert map_splice_remove)

lemma aligned_remove: "aligned s \<Longrightarrow> aligned (handleRemovePage index s)"
  by (simp add: aligned_def handleRemovePage_def map_splice_remove)

lemma aligned_drag: "aligned s \<Longrightarrow> aligned (pageDragEnd s)"
  by (simp add: aligned_def pageDragEnd_def map_move_entry split: option.splits)

lemma aligned_upload_loaded:
  "aligned s \<Longrightarrow> previewReads s = [] \<Longrightarrow> aligned (previewsLoaded 0 (handlePagesUpload fso s))"
  by (auto simp: aligned_def handlePagesUpload_def previewsLoaded_def js_index_def
        splice_remove_def o_def split: option.splits)

text \<open>
  From arrays that correspond index by index, \<open>handleRemovePage\<close> and \<open>handleDragEnd\<close>
  apply the same deletion or the same move to both and leave them corresponding.
  \<open>handlePagesUpload\<close> appends the files to \<open>comicPages\<close> at once and starts the reads;
  when nothing else happens before the previews are loaded, and no other read was in
  flight, the arrays correspond again after the load.
\<close>

lemma handlers_keep_alignment:
  assumes "aligned s"
  shows "aligned (handleRemovePage index s) \<and> aligned (pageDragEnd s)
       \<and> (previewReads s = [] \<longrightarrow> aligned (previewsLoaded 0 (handlePagesUpload fso s)))"
  using assms aligned_remove [of s index] aligned_drag [of s] aligned_upload_loaded [of s fso]
  by blast

text \<open>
  Between a selection and the end of its reads the file is in \<open>comicPages\<close> and its
  preview is not yet in \<open>pagePreviewUrls\<close>.
\<close>

lemma preview_lags_behind:
  "map_option (\<lambda>s. (length (comicPages s), length (pagePreviewUrls s)))
     (run first_upload (initial_wizard (Some ''u1'') ''c1'')) = Some (1, 0)"
  by (simp add: first_upload_def initial_wizard_def handleCoverUpload_def goToNextStep_def
        handlePagesUpload_def ex_file_def)

text \<open>
  Claim C9, at a run of events that the rendered page offers one after the other. Page
  \<open>p1\<close> is loaded, page \<open>p2\<close> is selected, and \<open>p1\<close> is removed while the preview of
  \<open>p2\<close> is being read: both arrays lose their entry at index 0. The continuation of the
  upload then sets \<open>pagePreviewUrls\<close> to the value it had closed over, with the preview
  of \<open>p1\<close> in it, followed by the new preview. No read is in flight any more, and the
  arrays have lengths 1 and 2: the preview at index 0 is that of the removed page.
\<close>

theorem previews_misaligned_after_removal:
  "map_option (\<lambda>s. (comicPages s, pagePreviewUrls s, previewReads s, coverReads s, aligned s))
     (run removal_during_read (initial_wizard (Some ''u1'') ''c1''))
   = Some ([Some (ex_file ''p2'')], [Some ''data:p1'', Some ''data:p2''], [], [], False)"
  by (simp add: removal_during_read_def initial_wizard_def handleCoverUpload_def coverLoaded_def
        goToNextStep_def handlePagesUpload_def previewsLoaded_def handleRemovePage_def
        js_index_def splice_remove_def ex_file_def aligned_def)

section \<open>The cap on the pages\<close>

lemma ninety_nine:
  "length ninety_nine_files = 99"
  "filter (\<lambda>f. \<not> prefix ''image/'' (file_type f)) ninety_nine_files = []"
  "filter (\<lambda>f. file_size f > 5242880) ninety_nine_files = []"
  unfolding ninety_nine_files_def by (simp_all add: ex_file_def)

text \<open>
  The two checks the cap rests on: a selection that would bring \<open>comicPages\<close> above 100
  entries adds nothing, and the pages step is not left without a page.
\<close>

lemma handlePagesUpload_over_cap:
  "files \<noteq> [] \<Longrightarrow> length (comicPages s) + length files > 100 \<Longrightarrow>
   comicPages (handlePagesUpload (Some files) s) = comicPages s
   \<and> previewReads (handlePagesUpload (Some files) s) = previewReads s
   \<and> w_error (handlePagesUpload (Some files) s) \<noteq> None"
  by (auto simp: handlePagesUpload_def)

lemma next_step_without_pages:
  "currentStep s = 2 \<Longrightarrow> comicPages s = [] \<Longrightarrow>
   currentStep (goToNextStep s) = 2 \<and> w_error (goToNextStep s) \<noteq> None"
  by (simp add: goToNextStep_def)

text \<open>
  What every run of events keeps, whatever reads are in flight: at most 100 entries of
  \<open>comicPages\<close> are files, and from the details step on \<open>comicPages\<close> is not empty.
\<close>

lemma count_take_drop:
  "length (filter P (take j ys)) + length (filter P (drop j ys)) = length (filter P ys)"
  by (metis append_take_drop_id filter_append length_append)

lemma count_splice_insert:
  "length (filter P (splice_insert j d ys)) = length (filter P ys) + (if P d then 1 else 0)"
  using count_take_drop [of P j ys] by (simp add: splice_insert_def)

lemma count_drop_Suc:
  "length (filter P (drop (Suc i) xs)) \<le> length (filter P (drop i xs))"
proof (cases "i < length xs")
  case True
  then have "drop i xs = xs ! i # drop (Suc i) xs" by (simp add: Cons_nth_drop_Suc)
  then show ?thesis by simp
next
  case False
  then show ?thesis by simp
qed

lemma count_splice_remove:
  "length (filter P (splice_remove i 1 xs)) \<le> length (filter P xs)"
  using count_take_drop [of P i xs] count_drop_Suc [of P i xs] by (simp add: splice_remove_def)

lemma count_splice_remove_at:
  "i < length xs \<Longrightarrow>
   length (filter P (splice_remove i 1 xs)) + (if P (xs ! i) then 1 else 0) = length (filter P xs)"
proof -
  assume "i < length xs"
  then have "drop i xs = xs ! i # drop (Suc i) xs" by (simp add: Cons_nth_drop_Suc)
  then have "length (filter P (drop i xs))
      = (if P (xs ! i) then 1 else 0) + length (filter P (drop (Suc i) xs))" by simp
  then show ?thesis
    using count_take_drop [of P i xs] by (simp add: splice_remove_def)
qed

lemma count_move_entry:
  assumes "\<not> P None"
  shows "length (filter P (move_entry i j xs)) = length (filter P xs)"
proof (cases "i < length xs")
  case True
  then show ?thesis
    using count_splice_remove_at [OF True, of P]
    by (simp add: move_entry_in_range count_splice_insert)
next
  case False
  then have "splice_remove i 1 xs = xs" by (simp add: splice_remove_def)
  with False assms show ?thesis
    by (simp add: move_entry_def js_index_def count_splice_insert)
qed

lemma handleSubmit_keeps:
  "comicPages (fst (handleSubmit env s)) = comicPages s"
  "currentStep (fst (handleSubmit env s)) = currentStep s"
  by (auto simp: handleSubmit_def split: option.splits prod.splits)

lemma fire_selected_files:
  "selected_files s \<le> 100 \<Longrightarrow> selected_files (fire e s) \<le> 100"
proof (cases e)
  case (PagesUpload fso)
  assume "selected_files s \<le> 100"
  then show ?thesis
    using PagesUpload
    apply (auto simp: selected_files_def handlePagesUpload_def o_def split: option.splits)
    using length_filter_le [of "\<lambda>p. \<exists>y. p = Some y" "comicPages s"]
    by linarith
next
  case DragEnd
  assume "selected_files s \<le> 100"
  then show ?thesis
    using DragEnd by (auto simp: selected_files_def pageDragEnd_def count_move_entry split: option.splits)
next
  case (RemovePage i)
  assume "selected_files s \<le> 100"
  then show ?thesis
    using RemovePage count_splice_remove [of "\<lambda>p. p \<noteq> None" i "comicPages s"]
    by (simp add: selected_files_def handleRemovePage_def)
next
  case (Submit env)
  assume "selected_files s \<le> 100"
  then show ?thesis
    using Submit by (simp add: selected_files_def handleSubmit_keeps)
qed (auto simp: selected_files_def handleCoverUpload_def coverLoaded_def removeCoverImage_def
      previewsLoaded_def
      pageDragStart_def pageDragEnter_def handleTagToggle_def goToNextStep_def
      goToPreviousStep_def split: option.splits)

lemma run_selected_files:
  "run es s = Some s' \<Longrightarrow> selected_files s \<le> 100 \<Longrightarrow> selected_files s' \<le> 100"
proof (induction es arbitrary: s)
  case Nil
  then show ?case by simp
next
  case (Cons e es)
  from Cons.prems(1) have "run es (fire e s) = Some s'"
    by (simp split: if_splits)
  moreover have "selected_files (fire e s) \<le> 100"
    using Cons.prems(2) by (rule fire_selected_files)
  ultimately show ?case by (rule Cons.IH)
qed

lemma selected_files_at_most_100:
  "run es (initial_wizard u cid) = Some s \<Longrightarrow> selected_files s \<le> 100"
proof -
  assume "run es (initial_wizard u cid) = Some s"
  moreover have "selected_files (initial_wizard u cid) \<le> 100"
    by (simp add: selected_files_def initial_wizard_def)
  ultimately show ?thesis by (rule run_selected_files)
qed

lemma fire_details_needs_page:
  assumes "enabled s e" and "3 \<le> currentStep s \<longrightarrow> comicPages s \<noteq> []"
  shows "3 \<le> currentStep (fire e s) \<longrightarrow> comicPages (fire e s) \<noteq> []"
proof (cases e)
  case (Submit env)
  with assms show ?thesis by (simp add: handleSubmit_keeps)
qed (use assms in \<open>auto simp: handleCoverUpload_def coverLoaded_def removeCoverImage_def
      previewsLoaded_def
      pageDragStart_def pageDragEnter_def handleTagToggle_def goToNextStep_def
      goToPreviousStep_def handlePagesUpload_def pageDragEnd_def handleRemovePage_def
      split: option.splits\<close>)

lemma run_details_needs_page:
  "run es s = Some s' \<Longrightarrow> (3 \<le> currentStep s \<longrightarrow> comicPages s \<noteq> []) \<Longrightarrow>
   3 \<le> currentStep s' \<longrightarrow> comicPages s' \<noteq> []"
proof (induction es arbitrary: s)
  case Nil
  then show ?case by simp
next
  case (Cons e es)
  from Cons.prems(1) have en: "enabled s e" and r: "run es (fire e s) = Some s'"
    by (simp_all split: if_splits)
  have "3 \<le> currentStep (fire e s) \<longrightarrow> comicPages (fire e s) \<noteq> []"
    using en Cons.prems(2) by (rule fire_details_needs_page)
  with r show ?case by (rule Cons.IH)
qed

lemma no_details_without_page:
  "run es (initial_wizard u cid) = Some s \<Longrightarrow> 3 \<le> currentStep s \<Longrightarrow> comicPages s \<noteq> []"
  using run_details_needs_page [of es "initial_wizard u cid" s]
  by (simp add: initial_wizard_def)

text \<open>
  Claim C4, at a run of events that the rendered page offers one after the other. A page
  is removed while the previews of an upload are being read; the continuation of that
  upload then overwrites \<open>pagePreviewUrls\<close> with the value it had closed over, which
  leaves one preview more than there are pages. After 99 more files there are 100 pages
  and 101 tiles, and dragging the last tile, whose index is no index of \<open>comicPages\<close>,
  inserts \<open>undefined\<close> without removing anything: \<open>comicPages\<close> has 101 entries, one of
  them \<open>undefined\<close>, and \<open>goToNextStep\<close> moves on to the details step.
\<close>

theorem page_101_reached:
  "map_option (\<lambda>s. (currentStep s, length (comicPages s), length (filter (\<lambda>p. p = None) (comicPages s)),
                     length (pagePreviewUrls s)))
     (run stale_preview_run (initial_wizard (Some ''u1'') ''c1'')) = Some (3, 101, 1, 101)"
  by (simp add: stale_preview_run_def initial_wizard_def handleCoverUpload_def goToNextStep_def
        handlePagesUpload_def previewsLoaded_def handleRemovePage_def pageDragStart_def
        pageDragEnter_def pageDragEnd_def move_entry_def js_index_def splice_remove_def
        splice_insert_def ex_file_def ninety_nine)
end
